theory Spec2Isabelle
  imports Main "HOL-Library.Word"
begin

section \<open>Data model\<close>

text \<open>
  The rewrite operations of package \<open>core\<close> work on go-git values. The types below keep the
  fields the source reads and writes. \<open>plumbing.Hash\<close> is a 20-byte array, Go's \<open>int\<close> is
  the 64-bit two's complement integer of the arm64 build.
\<close>

type_synonym hash = "160 word"
type_synonym go_int = "64 word"

record signature =
  Name :: string
  Email :: string
  When :: int

text \<open>\<open>object.Commit\<close>: the fields assigned in the commit literals of the source.\<close>

record commit =
  Hash :: hash
  Author :: signature
  Committer :: signature
  Message :: string
  TreeHash :: hash
  ParentHashes :: "hash list"

text \<open>\<open>object.Tree\<close>: only its \<open>Hash\<close> is read.\<close>

record tree =
  tHash :: hash

text \<open>\<open>SimpleCommit\<close>, named by its JSON tags.\<close>

record SimpleCommit =
  hash :: string
  author :: string
  email :: string
  message :: string
  date :: int

text \<open>\<open>ssh.PublicKeys\<close> as built by \<open>NewSSHAuth\<close>.\<close>

record PublicKeys =
  User :: string
  Signer :: string
  InsecureIgnoreHostKey :: bool

text \<open>
  Go errors. \<open>New s\<close> is \<open>errors.New(s)\<close> (and \<open>fmt.Errorf\<close> without \<open>%w\<close>),
  \<open>Errorf p e\<close> is \<open>fmt.Errorf(p + ": %w", e)\<close>, \<open>Lib s\<close> is an error value produced inside a
  library, \<open>NoErrAlreadyUpToDate\<close> and \<open>EOF\<close> are the sentinels \<open>git.NoErrAlreadyUpToDate\<close> and
  \<open>io.EOF\<close>. A run-time panic is the value \<open>Panic\<close>: the call does not return.
\<close>

datatype panic =
    IndexOutOfRange int nat
  | MakesliceCapOutOfRange

datatype error =
    New string
  | Errorf string error
  | Lib string
  | NoErrAlreadyUpToDate
  | EOF
  | Panic panic

text \<open>\<open>errors.Is\<close>: follows the chain of wrapped errors.\<close>

fun Is :: "error \<Rightarrow> error \<Rightarrow> bool" where
  "Is (Errorf p e) t = (Errorf p e = t \<or> Is e t)"
| "Is e t = (e = t)"

definition CommitNotFound :: error where
  "CommitNotFound = New ''commit not found in history''"

definition CannotDeleteSoleCommit :: error where
  "CannotDeleteSoleCommit = New ''cannot delete the only commit in the repository''"

text \<open>
  The in-memory clone (\<open>git.Repository\<close> over \<open>memory.Storage\<close>). \<open>Commits\<close> lists the commit
  objects of the storage, the latest write first; \<open>Trees\<close> are the hashes of the tree objects
  present; \<open>HEAD\<close> is the name of the reference \<open>HEAD\<close> resolves to; \<open>Refs\<close> maps reference
  names to hashes; \<open>Pushes\<close> records every call of \<open>repo.Push\<close> (refspec, force): the only way a
  call reaches the remote.
\<close>

record repository =
  Commits :: "commit list"
  Trees :: "hash set"
  HEAD :: string
  Refs :: "string \<rightharpoonup> hash"
  Pushes :: "(string \<times> bool) list"

text \<open>
  Everything outside the package: the two package variables, the remote and the transport,
  the clock, the object encoder and the hash function of the store. Each field is what the
  named library call answers.
\<close>

record env =
  UserName :: string
  UserEmail :: string
  NewPublicKeys :: "string \<Rightarrow> string \<Rightarrow> string \<Rightarrow> error + PublicKeys"
  git_Clone :: "string \<Rightarrow> PublicKeys \<Rightarrow> error + repository"
  git_Log :: "repository \<Rightarrow> hash \<Rightarrow> error + (commit list \<times> error option)"
  encode_err :: "commit \<Rightarrow> error option"
  store_err :: "commit \<Rightarrow> error option"
  hashf :: "commit \<Rightarrow> hash"
  setref_err :: "string \<Rightarrow> hash \<Rightarrow> error option"
  push_err :: "repository \<Rightarrow> string \<Rightarrow> bool \<Rightarrow> error option"
  Now :: "nat \<Rightarrow> int"
  NewHash :: "string \<Rightarrow> hash"
  HashString :: "hash \<Rightarrow> string"
  alloc_ok :: "int \<Rightarrow> bool"
  rand_Read :: "nat \<Rightarrow> 8 word list"
  worktree_err :: "repository \<Rightarrow> error option"
  fs_Create_err :: "string \<Rightarrow> error option"
  wt_Add_err :: "string \<Rightarrow> error option"
  wt_Commit :: "repository \<Rightarrow> (string \<times> string) list \<Rightarrow> string \<Rightarrow> signature \<Rightarrow> error + repository"

section \<open>Library calls\<close>

text \<open>\<open>utils.NewSSHAuth\<close>.\<close>

definition NewSSHAuth :: "env \<Rightarrow> string \<Rightarrow> error + PublicKeys" where
  "NewSSHAuth env sshKeyPEM =
     (case NewPublicKeys env ''git'' sshKeyPEM [] of
        Inl err \<Rightarrow> Inl (Errorf ''create public keys'' err)
      | Inr auth \<Rightarrow> Inr (auth\<lparr>InsecureIgnoreHostKey := True\<rparr>))"

text \<open>\<open>utils.CloneToMemory\<close> (the file system it also returns is ignored by every caller).\<close>

definition CloneToMemory :: "env \<Rightarrow> string \<Rightarrow> PublicKeys \<Rightarrow> error + repository" where
  "CloneToMemory env repoURL auth =
     (case git_Clone env repoURL auth of
        Inl err \<Rightarrow> Inl (Errorf ''clone'' err)
      | Inr repo \<Rightarrow> Inr repo)"

text \<open>\<open>repo.Head()\<close>: the resolved reference, name and hash.\<close>

definition Head :: "repository \<Rightarrow> error + (string \<times> hash)" where
  "Head repo =
     (case Refs repo (HEAD repo) of
        None \<Rightarrow> Inl (Lib ''reference not found'')
      | Some h \<Rightarrow> Inr (HEAD repo, h))"

text \<open>\<open>ReferenceName.IsBranch\<close>: the name starts with \<open>refs/heads/\<close>.\<close>

definition IsBranch :: "string \<Rightarrow> bool" where
  "IsBranch refName = (take 11 refName = ''refs/heads/'')"

text \<open>\<open>Commit.Tree()\<close>: the tree object stored under the commit's \<open>TreeHash\<close>.\<close>

definition Tree :: "repository \<Rightarrow> commit \<Rightarrow> error + tree" where
  "Tree repo c =
     (if TreeHash c \<in> Trees repo then Inr \<lparr>tHash = TreeHash c\<rparr>
      else Inl (Lib ''object not found''))"

text \<open>\<open>Commit.Encode\<close> into a fresh encoded object.\<close>

definition Encode :: "env \<Rightarrow> commit \<Rightarrow> error option" where
  "Encode env c = encode_err env c"

text \<open>
  \<open>storer.SetEncodedObject\<close>: the object is filed under the hash of its encoding, and that
  hash is returned. A commit read back from the storage carries the hash it is filed under.
\<close>

definition SetEncodedObject :: "env \<Rightarrow> repository \<Rightarrow> commit \<Rightarrow> error + (hash \<times> repository)" where
  "SetEncodedObject env repo c =
     (case store_err env c of
        Some err \<Rightarrow> Inl err
      | None \<Rightarrow> Inr (hashf env c, repo\<lparr>Commits := c\<lparr>Hash := hashf env c\<rparr> # Commits repo\<rparr>))"

text \<open>\<open>Storer.SetReference(plumbing.NewHashReference(name, h))\<close>.\<close>

definition SetReference :: "env \<Rightarrow> repository \<Rightarrow> string \<Rightarrow> hash \<Rightarrow> error + repository" where
  "SetReference env repo refName h =
     (case setref_err env refName h of
        Some err \<Rightarrow> Inl err
      | None \<Rightarrow> Inr (repo\<lparr>Refs := (Refs repo)(refName \<mapsto> h)\<rparr>))"

text \<open>\<open>repo.Push\<close> with one refspec \<open>name:name\<close>.\<close>

definition RefSpec :: "string \<Rightarrow> string" where
  "RefSpec refName = refName @ '':'' @ refName"

definition Push :: "env \<Rightarrow> repository \<Rightarrow> string \<Rightarrow> bool \<Rightarrow> error option \<times> repository" where
  "Push env repo spec force =
     (push_err env repo spec force, repo\<lparr>Pushes := Pushes repo @ [(spec, force)]\<rparr>)"

text \<open>The committer every rewritten commit gets: the package identity and the time of the call.\<close>

definition rewriter :: "env \<Rightarrow> nat \<Rightarrow> signature" where
  "rewriter env t = \<lparr>Name = UserName env, Email = UserEmail env, When = Now env t\<rparr>"

section \<open>TrimOldCommits\<close>

text \<open>
  The loop \<open>for i := keep - 2; i >= 0; i--\<close>. \<open>t\<close> counts the readings of the clock so far.
\<close>

function trim_loop ::
  "env \<Rightarrow> commit list \<Rightarrow> int \<Rightarrow> hash \<Rightarrow> nat \<Rightarrow> repository \<Rightarrow> (error + hash) \<times> repository" where
  "trim_loop env commits i currentParentHash t repo =
     (if 0 \<le> i then
        (if int (length commits) \<le> i
         then (Inl (Panic (IndexOutOfRange i (length commits))), repo)
         else
           let oldCommit = commits ! nat i in
           case Tree repo oldCommit of
             Inl err \<Rightarrow>
               (Inl (Errorf (''get tree for commit '' @ HashString env (Hash oldCommit)) err), repo)
           | Inr oldTree \<Rightarrow>
               (let newCommit = \<lparr>Hash = 0, Author = Author oldCommit,
                                 Committer = rewriter env t,
                                 Message = Message oldCommit,
                                 TreeHash = tHash oldTree,
                                 ParentHashes = [currentParentHash]\<rparr> in
                (case Encode env newCommit of
                   Some err \<Rightarrow> (Inl (Errorf ''encode rebased commit'' err), repo)
                 | None \<Rightarrow>
                     (case SetEncodedObject env repo newCommit of
                        Inl err \<Rightarrow> (Inl (Errorf ''store rebased commit'' err), repo)
                      | Inr (newCommitHash, repo') \<Rightarrow>
                          trim_loop env commits (i - 1) newCommitHash (Suc t) repo'))))
      else (Inr currentParentHash, repo))"
  by pat_completeness auto
termination
  by (relation "measure (\<lambda>(env, commits, i, h, t, repo). nat (i + 1))") auto

declare trim_loop.simps [simp del]

definition TrimOldCommits ::
  "env \<Rightarrow> string \<Rightarrow> string \<Rightarrow> go_int \<Rightarrow> (error + unit) \<times> repository option" where
  "TrimOldCommits env repoURL sshKeyPEM keep =
     (case NewSSHAuth env sshKeyPEM of
        Inl err \<Rightarrow> (Inl err, None)
      | Inr auth \<Rightarrow>
     (case CloneToMemory env repoURL auth of
        Inl err \<Rightarrow> (Inl err, None)
      | Inr repo \<Rightarrow>
     (case Head repo of
        Inl err \<Rightarrow> (Inl (Errorf ''head'' err), Some repo)
      | Inr (refName, headHash) \<Rightarrow>
     if \<not> IsBranch refName
     then (Inl (New (''HEAD is not on a branch: '' @ refName)), Some repo)
     else
     (case git_Log env repo headHash of
        Inl err \<Rightarrow> (Inl (Errorf ''log'' err), Some repo)
      | Inr (commits, _) \<Rightarrow>
     if int (length commits) \<le> sint keep then (Inr (), Some repo)
     else
       let idx = sint (keep - 1) in
       if idx < 0 \<or> int (length commits) \<le> idx
       then (Inl (Panic (IndexOutOfRange idx (length commits))), Some repo)
       else
         let newRootAncestor = commits ! nat idx in
         (case Tree repo newRootAncestor of
            Inl err \<Rightarrow> (Inl (Errorf ''get tree for new root'' err), Some repo)
          | Inr tree \<Rightarrow>
         let newRootCommit = \<lparr>Hash = 0, Author = Author newRootAncestor,
                              Committer = rewriter env 0,
                              Message = Message newRootAncestor,
                              TreeHash = tHash tree,
                              ParentHashes = []\<rparr> in
         (case Encode env newRootCommit of
            Some err \<Rightarrow> (Inl (Errorf ''encode new root commit'' err), Some repo)
          | None \<Rightarrow>
         (case SetEncodedObject env repo newRootCommit of
            Inl err \<Rightarrow> (Inl (Errorf ''store new root commit'' err), Some repo)
          | Inr (newRootHash, repo1) \<Rightarrow>
         (case trim_loop env commits (sint (keep - 2)) newRootHash 1 repo1 of
            (Inl err, repo2) \<Rightarrow> (Inl err, Some repo2)
          | (Inr finalHeadHash, repo2) \<Rightarrow>
         (case SetReference env repo2 refName finalHeadHash of
            Inl err \<Rightarrow> (Inl (Errorf ''set ref'' err), Some repo2)
          | Inr repo3 \<Rightarrow>
         (case Push env repo3 (RefSpec refName) True of
            (Some err, repo4) \<Rightarrow> (Inl (Errorf ''push'' err), Some repo4)
          | (None, repo4) \<Rightarrow> (Inr (), Some repo4)))))))))))"

section \<open>DeleteCommit\<close>

text \<open>
  The callback of \<open>iter.ForEach\<close>: it records the index of the commit whose hash is the
  target and appends the commit. The error of \<open>ForEach\<close> is dropped by the caller.
\<close>

fun delete_ForEach :: "hash \<Rightarrow> commit list \<Rightarrow> commit list \<Rightarrow> int \<Rightarrow> commit list \<times> int" where
  "delete_ForEach targetHash [] commits targetIndex = (commits, targetIndex)"
| "delete_ForEach targetHash (c # cs) commits targetIndex =
     delete_ForEach targetHash cs (commits @ [c])
       (if Hash c = targetHash then int (length commits) else targetIndex)"

text \<open>The loop \<open>for i := len(commits) - 1; i >= 0; i--\<close> that skips the target.\<close>

function delete_skip :: "commit list \<Rightarrow> int \<Rightarrow> int \<Rightarrow> commit list \<Rightarrow> commit list" where
  "delete_skip commits targetIndex i newCommits =
     (if 0 \<le> i then
        delete_skip commits targetIndex (i - 1)
          (if i \<noteq> targetIndex then newCommits @ [commits ! nat i] else newCommits)
      else newCommits)"
  by pat_completeness auto
termination
  by (relation "measure (\<lambda>(commits, targetIndex, i, newCommits). nat (i + 1))") auto

declare delete_skip.simps [simp del]

text \<open>The loop \<open>for i, oldCommit := range newCommits\<close>.\<close>

fun delete_rebuild ::
  "env \<Rightarrow> commit list \<Rightarrow> nat \<Rightarrow> hash \<Rightarrow> repository \<Rightarrow> (error + hash) \<times> repository" where
  "delete_rebuild env [] i currentParentHash repo = (Inr currentParentHash, repo)"
| "delete_rebuild env (oldCommit # rest) i currentParentHash repo =
     (case Tree repo oldCommit of
        Inl err \<Rightarrow>
          (Inl (Errorf (''get tree for commit '' @ HashString env (Hash oldCommit)) err), repo)
      | Inr oldTree \<Rightarrow>
          (let parentHashes = (if 0 < i then [currentParentHash] else []);
               newCommit = \<lparr>Hash = 0, Author = Author oldCommit,
                            Committer = rewriter env i,
                            Message = Message oldCommit,
                            TreeHash = tHash oldTree,
                            ParentHashes = parentHashes\<rparr> in
           (case Encode env newCommit of
              Some err \<Rightarrow> (Inl (Errorf ''encode rebased commit'' err), repo)
            | None \<Rightarrow>
                (case SetEncodedObject env repo newCommit of
                   Inl err \<Rightarrow> (Inl (Errorf ''store rebased commit'' err), repo)
                 | Inr (h, repo') \<Rightarrow> delete_rebuild env rest (Suc i) h repo'))))"

definition DeleteCommit ::
  "env \<Rightarrow> string \<Rightarrow> string \<Rightarrow> string \<Rightarrow> (error + unit) \<times> repository option" where
  "DeleteCommit env repoURL sshKeyPEM commitHash =
     (case NewSSHAuth env sshKeyPEM of
        Inl err \<Rightarrow> (Inl err, None)
      | Inr auth \<Rightarrow>
     (case CloneToMemory env repoURL auth of
        Inl err \<Rightarrow> (Inl (Errorf ''clone repo'' err), None)
      | Inr repo \<Rightarrow>
     (case Head repo of
        Inl err \<Rightarrow> (Inl (Errorf ''head'' err), Some repo)
      | Inr (refName, headHash) \<Rightarrow>
     if \<not> IsBranch refName
     then (Inl (New (''HEAD is not on a branch: '' @ refName)), Some repo)
     else
     (case git_Log env repo headHash of
        Inl err \<Rightarrow> (Inl (Errorf ''log'' err), Some repo)
      | Inr (iter, _) \<Rightarrow>
     let targetHash = NewHash env commitHash;
         (commits, targetIndex) = delete_ForEach targetHash iter [] (- 1) in
     if targetIndex = - 1 then (Inl CommitNotFound, Some repo)
     else if length commits = 1 then (Inl CannotDeleteSoleCommit, Some repo)
     else
       let newCommits = delete_skip commits targetIndex (int (length commits) - 1) [] in
       (case delete_rebuild env newCommits 0 0 repo of
          (Inl err, repo2) \<Rightarrow> (Inl err, Some repo2)
        | (Inr finalHeadHash, repo2) \<Rightarrow>
       (case SetReference env repo2 refName finalHeadHash of
          Inl err \<Rightarrow> (Inl (Errorf ''set ref'' err), Some repo2)
        | Inr repo3 \<Rightarrow>
       (case Push env repo3 (RefSpec refName) True of
          (Some err, repo4) \<Rightarrow> (Inl (Errorf ''push'' err), Some repo4)
        | (None, repo4) \<Rightarrow> (Inr (), Some repo4))))))))"

section \<open>ModifyCommit\<close>

fun modify_ForEach :: "hash \<Rightarrow> commit list \<Rightarrow> commit list \<Rightarrow> bool \<Rightarrow> commit list \<times> bool" where
  "modify_ForEach targetHash [] commits foundTarget = (commits, foundTarget)"
| "modify_ForEach targetHash (c # cs) commits foundTarget =
     modify_ForEach targetHash cs (commits @ [c])
       (if Hash c = targetHash then True else foundTarget)"

text \<open>The reversing loop \<open>for i := len(commits) - 1; i >= 0; i--\<close>.\<close>

function modify_reverse :: "commit list \<Rightarrow> int \<Rightarrow> commit list \<Rightarrow> commit list" where
  "modify_reverse commits i rootToHead =
     (if 0 \<le> i then modify_reverse commits (i - 1) (rootToHead @ [commits ! nat i])
      else rootToHead)"
  by pat_completeness auto
termination
  by (relation "measure (\<lambda>(commits, i, rootToHead). nat (i + 1))") auto

declare modify_reverse.simps [simp del]

text \<open>The loop \<open>for i, oldCommit := range rootToHead\<close>.\<close>

fun modify_rebuild ::
  "env \<Rightarrow> hash \<Rightarrow> string \<Rightarrow> commit list \<Rightarrow> nat \<Rightarrow> hash \<Rightarrow> repository
     \<Rightarrow> (error + hash) \<times> repository" where
  "modify_rebuild env targetHash newCommitMsg [] i currentParentHash repo =
     (Inr currentParentHash, repo)"
| "modify_rebuild env targetHash newCommitMsg (oldCommit # rest) i currentParentHash repo =
     (case Tree repo oldCommit of
        Inl err \<Rightarrow>
          (Inl (Errorf (''get tree for commit '' @ HashString env (Hash oldCommit)) err), repo)
      | Inr oldTree \<Rightarrow>
          (let parentHashes = (if 0 < i then [currentParentHash] else []);
               message = (if Hash oldCommit = targetHash then newCommitMsg
                          else Message oldCommit);
               author = Author oldCommit;
               newCommit = \<lparr>Hash = 0, Author = author,
                            Committer = rewriter env i,
                            Message = message,
                            TreeHash = tHash oldTree,
                            ParentHashes = parentHashes\<rparr> in
           (case Encode env newCommit of
              Some err \<Rightarrow> (Inl (Errorf ''encode rebased commit'' err), repo)
            | None \<Rightarrow>
                (case SetEncodedObject env repo newCommit of
                   Inl err \<Rightarrow> (Inl (Errorf ''store rebased commit'' err), repo)
                 | Inr (h, repo') \<Rightarrow>
                     modify_rebuild env targetHash newCommitMsg rest (Suc i) h repo'))))"

definition ModifyCommit ::
  "env \<Rightarrow> string \<Rightarrow> string \<Rightarrow> string \<Rightarrow> string \<Rightarrow> (error + unit) \<times> repository option" where
  "ModifyCommit env repoURL sshKeyPEM commitHash newCommitMsg =
     (case NewSSHAuth env sshKeyPEM of
        Inl err \<Rightarrow> (Inl err, None)
      | Inr auth \<Rightarrow>
     (case CloneToMemory env repoURL auth of
        Inl err \<Rightarrow> (Inl (Errorf ''clone repo'' err), None)
      | Inr repo \<Rightarrow>
     (case Head repo of
        Inl err \<Rightarrow> (Inl (Errorf ''head'' err), Some repo)
      | Inr (refName, headHash) \<Rightarrow>
     if \<not> IsBranch refName
     then (Inl (New (''HEAD is not on a branch: '' @ refName)), Some repo)
     else
     (case git_Log env repo headHash of
        Inl err \<Rightarrow> (Inl (Errorf ''log'' err), Some repo)
      | Inr (iter, _) \<Rightarrow>
     let targetHash = NewHash env commitHash;
         (commits, foundTarget) = modify_ForEach targetHash iter [] False in
     if \<not> foundTarget then (Inl CommitNotFound, Some repo)
     else
       let rootToHead = modify_reverse commits (int (length commits) - 1) [] in
       (case modify_rebuild env targetHash newCommitMsg rootToHead 0 0 repo of
          (Inl err, repo2) \<Rightarrow> (Inl err, Some repo2)
        | (Inr finalHeadHash, repo2) \<Rightarrow>
       (case SetReference env repo2 refName finalHeadHash of
          Inl err \<Rightarrow> (Inl (Errorf ''set ref'' err), Some repo2)
        | Inr repo3 \<Rightarrow>
       (case Push env repo3 (RefSpec refName) True of
          (Some err, repo4) \<Rightarrow> (Inl (Errorf ''push'' err), Some repo4)
        | (None, repo4) \<Rightarrow> (Inr (), Some repo4))))))))"

section \<open>FetchCommits\<close>

text \<open>
  \<open>cIter.ForEach\<close> with the callback of \<open>FetchCommits\<close>: \<open>iterErr\<close> is what the iterator
  itself ends with once its commits are used up; an error of the callback ends the iteration
  and is what \<open>ForEach\<close> returns.
\<close>

fun fetch_ForEach ::
  "env \<Rightarrow> int \<Rightarrow> error option \<Rightarrow> commit list \<Rightarrow> int \<Rightarrow> SimpleCommit list
     \<Rightarrow> error option \<times> SimpleCommit list" where
  "fetch_ForEach env max' iterErr [] count results = (iterErr, results)"
| "fetch_ForEach env max' iterErr (c # cs) count results =
     (if 0 < max' \<and> max' \<le> count then (Some EOF, results)
      else fetch_ForEach env max' iterErr cs (count + 1)
             (results @ [\<lparr>hash = HashString env (Hash c),
                          author = Name (Author c),
                          email = Email (Author c),
                          message = Message c,
                          date = When (Author c)\<rparr>]))"

text \<open>
  \<open>make([]SimpleCommit, 0, max)\<close> panics when the capacity is negative or more than the
  run time can allocate (\<open>alloc_ok\<close>).
\<close>

definition FetchCommits ::
  "env \<Rightarrow> string \<Rightarrow> string \<Rightarrow> go_int \<Rightarrow> error + SimpleCommit list" where
  "FetchCommits env repoURL sshKeyPEM max' =
     (case NewSSHAuth env sshKeyPEM of
        Inl err \<Rightarrow> Inl err
      | Inr auth \<Rightarrow>
     (case CloneToMemory env repoURL auth of
        Inl err \<Rightarrow> Inl err
      | Inr repo \<Rightarrow>
     (case Head repo of
        Inl err \<Rightarrow> Inl (Errorf ''head'' err)
      | Inr (refName, headHash) \<Rightarrow>
     (case git_Log env repo headHash of
        Inl err \<Rightarrow> Inl (Errorf ''log'' err)
      | Inr (cIter, iterErr) \<Rightarrow>
     if sint max' < 0 \<or> \<not> alloc_ok env (sint max') then Inl (Panic MakesliceCapOutOfRange)
     else
       (case fetch_ForEach env (sint max') iterErr cIter 0 [] of
          (Some err, results) \<Rightarrow>
            if err \<noteq> EOF then Inl (Errorf ''iterate log'' err) else Inr results
        | (None, results) \<Rightarrow> Inr results)))))"

section \<open>PushCommit\<close>

text \<open>\<open>hex.EncodeToString\<close> and \<open>utils.RandomHexString\<close>.\<close>

definition hexdigit :: "nat \<Rightarrow> char" where
  "hexdigit n = ''0123456789abcdef'' ! n"

definition EncodeToString :: "8 word list \<Rightarrow> string" where
  "EncodeToString bs = concat (map (\<lambda>b. [hexdigit (unat b div 16), hexdigit (unat b mod 16)]) bs)"

definition RandomHexString :: "env \<Rightarrow> nat \<Rightarrow> string" where
  "RandomHexString env n = EncodeToString (rand_Read env (n div 2))"

text \<open>The loop \<open>for path, content := range files\<close>: create, write, close, add.\<close>

fun push_files :: "env \<Rightarrow> (string \<times> string) list \<Rightarrow> error option" where
  "push_files env [] = None"
| "push_files env ((path, content) # rest) =
     (case fs_Create_err env path of
        Some err \<Rightarrow> Some (Errorf (''create file '' @ path) err)
      | None \<Rightarrow>
          (case wt_Add_err env path of
             Some err \<Rightarrow> Some (Errorf (''add '' @ path) err)
           | None \<Rightarrow> push_files env rest))"

definition PushCommit ::
  "env \<Rightarrow> string \<Rightarrow> string \<Rightarrow> string \<Rightarrow> (error + unit) \<times> repository option" where
  "PushCommit env repoURL sshKeyPEM commitMsg =
     (case NewSSHAuth env sshKeyPEM of
        Inl err \<Rightarrow> (Inl err, None)
      | Inr auth \<Rightarrow>
     let files = [(''README.MD'', RandomHexString env 32)] in
     (case CloneToMemory env repoURL auth of
        Inl err \<Rightarrow> (Inl (Errorf ''clone repo'' err), None)
      | Inr repo \<Rightarrow>
     (case worktree_err env repo of
        Some err \<Rightarrow> (Inl (Errorf ''worktree'' err), Some repo)
      | None \<Rightarrow>
     (case Head repo of
        Inl err \<Rightarrow> (Inl (Errorf ''head'' err), Some repo)
      | Inr (refName, headHash) \<Rightarrow>
     if \<not> IsBranch refName
     then (Inl (New (''HEAD is not on a branch: '' @ refName)), Some repo)
     else
     (case push_files env files of
        Some err \<Rightarrow> (Inl err, Some repo)
      | None \<Rightarrow>
     (case wt_Commit env repo files commitMsg
             \<lparr>Name = UserName env, Email = UserEmail env, When = Now env 0\<rparr> of
        Inl err \<Rightarrow> (Inl (Errorf ''commit'' err), Some repo)
      | Inr repo2 \<Rightarrow>
     (case Push env repo2 (RefSpec refName) False of
        (Some err, repo3) \<Rightarrow>
          if Is err NoErrAlreadyUpToDate then (Inr (), Some repo3)
          else (Inl (Errorf ''push'' err), Some repo3)
      | (None, repo3) \<Rightarrow> (Inr (), Some repo3))))))))"

section \<open>Vocabulary of the claims\<close>

text \<open>
  The rewriting step as the specification words it (section 4.2, step 3): walk the surviving
  records root-first; for each, copy tree hash and author, set the committer to the rewriting
  identity and the current time, set the message by policy, set the parent to the hash of the
  record synthesized just before (none for the first), and take the hash of the result as the
  parent of the next. It is compared with the three loops of the source below.
\<close>

fun rechain :: "env \<Rightarrow> (commit \<Rightarrow> string) \<Rightarrow> hash list \<Rightarrow> nat \<Rightarrow> commit list \<Rightarrow> commit list" where
  "rechain env msg parents t [] = []"
| "rechain env msg parents t (old # olds) =
     (let h = hashf env \<lparr>Hash = 0, Author = Author old, Committer = rewriter env t,
                         Message = msg old, TreeHash = TreeHash old, ParentHashes = parents\<rparr>
      in \<lparr>Hash = h, Author = Author old, Committer = rewriter env t,
           Message = msg old, TreeHash = TreeHash old, ParentHashes = parents\<rparr>
         # rechain env msg [h] (Suc t) olds)"

text \<open>
  A list of records, oldest first, is a chain on top of \<open>parents\<close>: the first record has
  exactly these parents, every later one has the hash of the record before it as its only parent.
\<close>

fun chained :: "hash list \<Rightarrow> commit list \<Rightarrow> bool" where
  "chained parents [] = True"
| "chained parents (c # cs) = (ParentHashes c = parents \<and> chained [Hash c] cs)"

text \<open>
  The commit objects a call has added to the storage it was given, in the order they were
  written (the new root first).
\<close>

definition synthesized :: "repository \<Rightarrow> repository \<Rightarrow> commit list" where
  "synthesized repo repo' =
     rev (take (length (Commits repo') - length (Commits repo)) (Commits repo'))"

text \<open>Encoding or storing fails for one of the records.\<close>

definition write_fails :: "env \<Rightarrow> commit list \<Rightarrow> bool" where
  "write_fails env news =
     (\<exists>c \<in> set news. Encode env (c\<lparr>Hash := 0\<rparr>) \<noteq> None \<or> store_err env (c\<lparr>Hash := 0\<rparr>) \<noteq> None)"

text \<open>
  The invariant of a rewritten chain \<open>news\<close> (oldest first) against the surviving originals
  \<open>olds\<close>: the records are chained from a parentless root, each carries the hash of its own
  encoding, tree hash and author are the original's, the message is the one the policy
  \<open>msg\<close> gives, and the committer is the rewriting identity.
\<close>

definition rewritten :: "env \<Rightarrow> (commit \<Rightarrow> string) \<Rightarrow> commit list \<Rightarrow> commit list \<Rightarrow> bool" where
  "rewritten env msg olds news =
     (chained [] news
      \<and> list_all2 (\<lambda>n old. Hash n = hashf env (n\<lparr>Hash := 0\<rparr>)
                     \<and> TreeHash n = TreeHash old \<and> Author n = Author old
                     \<and> Message n = msg old) news olds
      \<and> map Committer news = map (rewriter env) [0..<length news])"

text \<open>
  The collaborators of a rewrite do their part: the trees of the given commits are in the
  storage, neither the encoder nor the storage refuses a commit, the reference can be set and
  the forced push of the branch is accepted.
\<close>

definition collaborators_succeed :: "env \<Rightarrow> repository \<Rightarrow> string \<Rightarrow> commit list \<Rightarrow> bool" where
  "collaborators_succeed env repo refName commits =
     ((\<forall>c \<in> set commits. TreeHash c \<in> Trees repo)
      \<and> (\<forall>c. encode_err env c = None) \<and> (\<forall>c. store_err env c = None)
      \<and> (\<forall>h. setref_err env refName h = None)
      \<and> (\<forall>r. push_err env r (RefSpec refName) True = None))"

section \<open>A concrete repository\<close>

text \<open>
  Three commits \<open>a\<close>, \<open>bb\<close>, \<open>ccc\<close> on \<open>refs/heads/main\<close>, written by a developer at time 5,
  and an environment in which every library call succeeds. \<open>ex_hash\<close> stands in for the hash
  of the encoding; the hashes of the three commits are the ones it gives.
\<close>

definition ex_sig :: signature where
  "ex_sig = \<lparr>Name = ''dev'', Email = ''dev@example.org'', When = 5\<rparr>"

definition ex_hash :: "commit \<Rightarrow> hash" where
  "ex_hash c = word_of_int (When (Committer c)) * 1000 + TreeHash c
                 + 3 * sum_list (ParentHashes c) + word_of_nat (length (Message c))"

definition ex_c0 :: commit where
  "ex_c0 = \<lparr>Hash = 5101, Author = ex_sig, Committer = ex_sig, Message = ''a'',
            TreeHash = 100, ParentHashes = []\<rparr>"

definition ex_c1 :: commit where
  "ex_c1 = \<lparr>Hash = 20505, Author = ex_sig, Committer = ex_sig, Message = ''bb'',
            TreeHash = 200, ParentHashes = [5101]\<rparr>"

definition ex_c2 :: commit where
  "ex_c2 = \<lparr>Hash = 66818, Author = ex_sig, Committer = ex_sig, Message = ''ccc'',
            TreeHash = 300, ParentHashes = [20505]\<rparr>"

definition ex_repo :: repository where
  "ex_repo = \<lparr>Commits = [ex_c2, ex_c1, ex_c0], Trees = {100, 200, 300},
              HEAD = ''refs/heads/main'', Refs = [''refs/heads/main'' \<mapsto> 66818], Pushes = []\<rparr>"

definition ex_solo :: repository where
  "ex_solo = \<lparr>Commits = [ex_c0], Trees = {100},
              HEAD = ''refs/heads/main'', Refs = [''refs/heads/main'' \<mapsto> 5101], Pushes = []\<rparr>"

definition ex_auth :: PublicKeys where
  "ex_auth = \<lparr>User = ''git'', Signer = ''key'', InsecureIgnoreHostKey = True\<rparr>"

definition ex_env :: "repository \<Rightarrow> commit list \<Rightarrow> env" where
  "ex_env repo cs = \<lparr>UserName = ''MixGram'', UserEmail = ''admin@mixgram.org'',
     NewPublicKeys = (\<lambda>u k p. Inr \<lparr>User = u, Signer = k, InsecureIgnoreHostKey = False\<rparr>),
     git_Clone = (\<lambda>u a. Inr repo),
     git_Log = (\<lambda>r h. Inr (cs, None)),
     encode_err = (\<lambda>c. None), store_err = (\<lambda>c. None), hashf = ex_hash,
     setref_err = (\<lambda>n h. None), push_err = (\<lambda>r s f. None),
     Now = (\<lambda>t. 9 + int t),
     NewHash = (\<lambda>s. if s = ''c0'' then 5101 else if s = ''c1'' then 20505
                      else if s = ''c2'' then 66818 else 0),
     HashString = (\<lambda>h. if h = 5101 then ''c0'' else if h = 20505 then ''c1''
                         else if h = 66818 then ''c2'' else ''??''),
     alloc_ok = (\<lambda>n. n \<le> 1000),
     rand_Read = (\<lambda>n. replicate n 0),
     worktree_err = (\<lambda>r. None), fs_Create_err = (\<lambda>p. None), wt_Add_err = (\<lambda>p. None),
     wt_Commit = (\<lambda>r fs m s. Inr r)\<rparr>"

text \<open>The same environment for the three-commit repository, and three ways it can go wrong.\<close>

definition ex3 :: env where
  "ex3 = ex_env ex_repo [ex_c2, ex_c1, ex_c0]"

definition ex1 :: env where
  "ex1 = ex_env ex_solo [ex_c0]"

definition ex3_up_to_date :: env where
  "ex3_up_to_date = ex3\<lparr>push_err := (\<lambda>r s f. Some NoErrAlreadyUpToDate)\<rparr>"

definition ex3_encode_fails :: env where
  "ex3_encode_fails =
     ex3\<lparr>encode_err := (\<lambda>c. if Message c = ''ccc'' then Some (Lib ''encode'') else None)\<rparr>"

definition ex3_same_committer :: env where
  "ex3_same_committer = ex3\<lparr>UserName := ''dev'', UserEmail := ''dev@example.org'',
                            Now := (\<lambda>t. 5)\<rparr>"

text \<open>
  What the three rewrites leave in the storage of the example: truncation to two commits,
  deletion of \<open>bb\<close>, and the new message \<open>fixed\<close> for \<open>bb\<close>.
\<close>

definition ex_new :: "string \<Rightarrow> hash \<Rightarrow> int \<Rightarrow> hash list \<Rightarrow> hash \<Rightarrow> commit" where
  "ex_new m tr t ps h =
     \<lparr>Hash = h, Author = ex_sig,
      Committer = \<lparr>Name = ''MixGram'', Email = ''admin@mixgram.org'', When = t\<rparr>,
      Message = m, TreeHash = tr, ParentHashes = ps\<rparr>"

definition ex_trimmed :: repository where
  "ex_trimmed = ex_repo\<lparr>Commits := [ex_new ''ccc'' 300 10 [9202] 37909, ex_new ''bb'' 200 9 [] 9202,
                                     ex_c2, ex_c1, ex_c0],
                         Refs := [''refs/heads/main'' \<mapsto> 37909],
                         Pushes := [(''refs/heads/main:refs/heads/main'', True)]\<rparr>"

definition ex_deleted :: repository where
  "ex_deleted = ex_repo\<lparr>Commits := [ex_new ''ccc'' 300 10 [9101] 37606, ex_new ''a'' 100 9 [] 9101,
                                     ex_c2, ex_c1, ex_c0],
                         Refs := [''refs/heads/main'' \<mapsto> 37606],
                         Pushes := [(''refs/heads/main:refs/heads/main'', True)]\<rparr>"

definition ex_amended :: repository where
  "ex_amended = ex_repo\<lparr>Commits := [ex_new ''ccc'' 300 11 [37508] 123827,
                                     ex_new ''fixed'' 200 10 [9101] 37508,
                                     ex_new ''a'' 100 9 [] 9101,
                                     ex_c2, ex_c1, ex_c0],
                         Refs := [''refs/heads/main'' \<mapsto> 123827],
                         Pushes := [(''refs/heads/main:refs/heads/main'', True)]\<rparr>"

section \<open>The loops of the source and the specification's rewriting step\<close>

lemmas ex_defs = ex3_def ex1_def ex3_up_to_date_def ex3_encode_fails_def ex3_same_committer_def
  ex_env_def ex_repo_def ex_solo_def ex_c0_def ex_c1_def ex_c2_def ex_sig_def ex_hash_def
  ex_auth_def

lemmas out_defs = ex_new_def ex_trimmed_def ex_deleted_def ex_amended_def

lemmas lib_defs = NewSSHAuth_def CloneToMemory_def Head_def IsBranch_def Tree_def Encode_def
  SetEncodedObject_def SetReference_def Push_def RefSpec_def rewriter_def

lemma delete_ForEach_fst: "fst (delete_ForEach th cs acc ti) = acc @ cs"
  by (induction cs arbitrary: acc ti) auto

lemma delete_ForEach_snd_absent:
  "th \<notin> Hash ` set cs \<Longrightarrow> snd (delete_ForEach th cs acc ti) = ti"
  by (induction cs arbitrary: acc ti) auto

lemma delete_ForEach_snd_present:
  "th \<in> Hash ` set cs \<Longrightarrow>
   \<exists>k < length cs. Hash (cs ! k) = th \<and> (\<forall>j. k < j \<and> j < length cs \<longrightarrow> Hash (cs ! j) \<noteq> th)
       \<and> snd (delete_ForEach th cs acc ti) = int (length acc + k)"
proof (induction cs arbitrary: acc ti)
  case Nil
  then show ?case by simp
next
  case (Cons c cs)
  show ?case
  proof (cases "th \<in> Hash ` set cs")
    case True
    from Cons.IH [OF True, of "acc @ [c]" "if Hash c = th then int (length acc) else ti"]
    obtain k where k: "k < length cs" "Hash (cs ! k) = th"
      "\<forall>j. k < j \<and> j < length cs \<longrightarrow> Hash (cs ! j) \<noteq> th"
      "snd (delete_ForEach th cs (acc @ [c]) (if Hash c = th then int (length acc) else ti))
         = int (length (acc @ [c]) + k)"
      by blast
    have "\<forall>j. Suc k < j \<and> j < length (c # cs) \<longrightarrow> Hash ((c # cs) ! j) \<noteq> th"
    proof (intro allI impI)
      fix j assume j: "Suc k < j \<and> j < length (c # cs)"
      then obtain j' where "j = Suc j'" by (cases j) auto
      with j k(3) show "Hash ((c # cs) ! j) \<noteq> th" by auto
    qed
    with k show ?thesis
      by (intro exI [of _ "Suc k"]) simp
  next
    case False
    with Cons.prems have c: "Hash c = th" by auto
    have "\<forall>j. 0 < j \<and> j < length (c # cs) \<longrightarrow> Hash ((c # cs) ! j) \<noteq> th"
    proof (intro allI impI)
      fix j assume j: "0 < j \<and> j < length (c # cs)"
      then obtain j' where j': "j = Suc j'" by (cases j) auto
      with j have "cs ! j' \<in> set cs" by simp
      with False j' show "Hash ((c # cs) ! j) \<noteq> th" by auto
    qed
    with c False show ?thesis
      by (intro exI [of _ 0]) (simp add: delete_ForEach_snd_absent)
  qed
qed

lemma delete_skip_take:
  "n \<le> length cs \<Longrightarrow>
   delete_skip cs (int k) (int n - 1) acc
     = acc @ rev (take (min k n) cs @ take (n - Suc k) (drop (Suc k) cs))"
proof (induction n arbitrary: acc)
  case 0
  then show ?case by (simp add: delete_skip.simps)
next
  case (Suc n)
  have step: "delete_skip cs (int k) (int (Suc n) - 1) acc
          = delete_skip cs (int k) (int n - 1) (if n \<noteq> k then acc @ [cs ! n] else acc)"
    by (subst delete_skip.simps) simp
  from Suc.prems have n: "n < length cs" by simp
  consider "n < k" | "n = k" | "k < n" by linarith
  then show ?case
  proof cases
    case 1
    then have m: "min k (Suc n) = Suc n" "min k n = n" by simp_all
    from 1 n step Suc.IH show ?thesis
      unfolding m by (simp add: take_Suc_conv_app_nth)
  next
    case 2
    with n step Suc.IH show ?thesis by simp
  next
    case 3
    then have d: "Suc n - Suc k = Suc (n - Suc k)" by simp
    from 3 n have l: "n - Suc k < length (drop (Suc k) cs)" by simp
    from 3 have e: "drop (Suc k) cs ! (n - Suc k) = cs ! n"
      using n by simp
    have "take (Suc n - Suc k) (drop (Suc k) cs)
            = take (n - Suc k) (drop (Suc k) cs) @ [cs ! n]"
      unfolding d using take_Suc_conv_app_nth [OF l] e by simp
    moreover from 3 have "min k (Suc n) = k" "min k n = k" by simp_all
    ultimately show ?thesis using 3 n step Suc.IH by simp
  qed
qed

lemma delete_skip_eq:
  assumes "k < length cs"
  shows "delete_skip cs (int k) (int (length cs) - 1) [] = rev (take k cs @ drop (Suc k) cs)"
  using delete_skip_take [of "length cs" cs k "[]"] assms by (simp add: min_def)

lemma modify_ForEach_eq:
  "modify_ForEach th cs acc found = (acc @ cs, found \<or> th \<in> Hash ` set cs)"
  by (induction cs arbitrary: acc found) auto

lemma modify_reverse_upt:
  "n \<le> length cs \<Longrightarrow> modify_reverse cs (int n - 1) acc = acc @ rev (take n cs)"
proof (induction n arbitrary: acc)
  case 0
  then show ?case by (simp add: modify_reverse.simps)
next
  case (Suc n)
  have "modify_reverse cs (int (Suc n) - 1) acc = modify_reverse cs (int n - 1) (acc @ [cs ! n])"
    by (subst modify_reverse.simps) simp
  with Suc show ?case
    by (simp add: take_Suc_conv_app_nth)
qed

lemma Tree_Inr: "Tree repo c = Inr tr \<Longrightarrow> tHash tr = TreeHash c"
  by (auto simp: Tree_def split: if_splits)

lemma SetEncodedObject_Inr:
  "SetEncodedObject env repo c = Inr (h, repo') \<Longrightarrow>
     h = hashf env c \<and> repo' = repo\<lparr>Commits := c\<lparr>Hash := hashf env c\<rparr> # Commits repo\<rparr>"
  by (auto simp: SetEncodedObject_def split: option.splits)

lemma delete_rebuild_Inr:
  "delete_rebuild env olds i cur repo = (Inr h, repo') \<Longrightarrow>
     repo' = repo\<lparr>Commits := rev (rechain env Message (if 0 < i then [cur] else []) i olds)
                               @ Commits repo\<rparr>
     \<and> h = last (cur # map Hash (rechain env Message (if 0 < i then [cur] else []) i olds))"
proof (induction olds arbitrary: i cur repo)
  case Nil
  then show ?case by simp
next
  case (Cons old olds)
  from Cons.prems obtain tr where tr: "Tree repo old = Inr tr"
    by (auto split: sum.splits)
  define new where "new = \<lparr>Hash = 0, Author = Author old, Committer = rewriter env i,
     Message = Message old, TreeHash = TreeHash old,
     ParentHashes = (if 0 < i then [cur] else [])\<rparr>"
  from Cons.prems tr obtain h1 repo1 where
    st: "SetEncodedObject env repo new = Inr (h1, repo1)"
    and rest: "delete_rebuild env olds (Suc i) h1 repo1 = (Inr h, repo')"
    by (auto simp: Let_def new_def Tree_Inr split: sum.splits option.splits)
  from SetEncodedObject_Inr [OF st] have h1: "h1 = hashf env new"
    and repo1: "repo1 = repo\<lparr>Commits := new\<lparr>Hash := hashf env new\<rparr> # Commits repo\<rparr>"
    by simp_all
  from Cons.IH [OF rest] show ?case
    by (simp add: h1 repo1 new_def Let_def)
qed

lemma SetEncodedObject_keeps:
  "SetEncodedObject env repo c = Inr (h, repo') \<Longrightarrow>
     Refs repo' = Refs repo \<and> Pushes repo' = Pushes repo \<and> Trees repo' = Trees repo
     \<and> HEAD repo' = HEAD repo"
  by (auto simp: SetEncodedObject_def split: option.splits)

lemma delete_rebuild_Inl:
  "delete_rebuild env olds i cur repo = (Inl e, repo') \<Longrightarrow>
     Refs repo' = Refs repo \<and> Pushes repo' = Pushes repo \<and> (\<exists>p e'. e = Errorf p e')"
proof (induction olds arbitrary: i cur repo)
  case Nil
  then show ?case by simp
next
  case (Cons old olds)
  show ?case
  proof (cases "Tree repo old")
    case (Inl err)
    with Cons.prems show ?thesis by auto
  next
    case (Inr tr)
    define new where "new = \<lparr>Hash = 0, Author = Author old, Committer = rewriter env i,
       Message = Message old, TreeHash = tHash tr,
       ParentHashes = (if 0 < i then [cur] else [])\<rparr>"
    show ?thesis
    proof (cases "Encode env new")
      case (Some err)
      with Cons.prems Inr show ?thesis by (auto simp: new_def Let_def)
    next
      case None
      show ?thesis
      proof (cases "SetEncodedObject env repo new")
        case (Inl err)
        with Cons.prems Inr None show ?thesis by (auto simp: new_def Let_def)
      next
        case stored: (Inr p)
        obtain h1 repo1 where p: "p = (h1, repo1)" by (cases p)
        with Cons.prems Inr None stored
        have "delete_rebuild env olds (Suc i) h1 repo1 = (Inl e, repo')"
          by (auto simp: new_def Let_def)
        from Cons.IH [OF this] SetEncodedObject_keeps [OF stored [unfolded p]]
        show ?thesis by simp
      qed
    qed
  qed
qed

lemma modify_rebuild_Inr:
  "modify_rebuild env th msg olds i cur repo = (Inr h, repo') \<Longrightarrow>
     repo' = repo\<lparr>Commits :=
                rev (rechain env (\<lambda>c. if Hash c = th then msg else Message c)
                       (if 0 < i then [cur] else []) i olds) @ Commits repo\<rparr>
     \<and> h = last (cur # map Hash (rechain env (\<lambda>c. if Hash c = th then msg else Message c)
                                   (if 0 < i then [cur] else []) i olds))"
proof (induction olds arbitrary: i cur repo)
  case Nil
  then show ?case by simp
next
  case (Cons old olds)
  from Cons.prems obtain tr where tr: "Tree repo old = Inr tr"
    by (auto split: sum.splits)
  define new where "new = \<lparr>Hash = 0, Author = Author old, Committer = rewriter env i,
     Message = (if Hash old = th then msg else Message old), TreeHash = TreeHash old,
     ParentHashes = (if 0 < i then [cur] else [])\<rparr>"
  from Cons.prems tr obtain h1 repo1 where
    st: "SetEncodedObject env repo new = Inr (h1, repo1)"
    and rest: "modify_rebuild env th msg olds (Suc i) h1 repo1 = (Inr h, repo')"
    by (auto simp: Let_def new_def Tree_Inr split: sum.splits option.splits)
  from SetEncodedObject_Inr [OF st] have h1: "h1 = hashf env new"
    and repo1: "repo1 = repo\<lparr>Commits := new\<lparr>Hash := hashf env new\<rparr> # Commits repo\<rparr>"
    by simp_all
  from Cons.IH [OF rest] show ?case
    by (simp add: h1 repo1 new_def Let_def)
qed

lemma modify_rebuild_Inl:
  "modify_rebuild env th msg olds i cur repo = (Inl e, repo') \<Longrightarrow>
     Refs repo' = Refs repo \<and> Pushes repo' = Pushes repo \<and> (\<exists>p e'. e = Errorf p e')"
proof (induction olds arbitrary: i cur repo)
  case Nil
  then show ?case by simp
next
  case (Cons old olds)
  show ?case
  proof (cases "Tree repo old")
    case (Inl err)
    with Cons.prems show ?thesis by auto
  next
    case (Inr tr)
    define new where "new = \<lparr>Hash = 0, Author = Author old, Committer = rewriter env i,
       Message = (if Hash old = th then msg else Message old), TreeHash = tHash tr,
       ParentHashes = (if 0 < i then [cur] else [])\<rparr>"
    show ?thesis
    proof (cases "Encode env new")
      case (Some err)
      with Cons.prems Inr show ?thesis by (auto simp: new_def Let_def)
    next
      case None
      show ?thesis
      proof (cases "SetEncodedObject env repo new")
        case (Inl err)
        with Cons.prems Inr None show ?thesis by (auto simp: new_def Let_def)
      next
        case stored: (Inr p)
        obtain h1 repo1 where p: "p = (h1, repo1)" by (cases p)
        with Cons.prems Inr None stored
        have "modify_rebuild env th msg olds (Suc i) h1 repo1 = (Inl e, repo')"
          by (auto simp: new_def Let_def)
        from Cons.IH [OF this] SetEncodedObject_keeps [OF stored [unfolded p]]
        show ?thesis by simp
      qed
    qed
  qed
qed

lemma trim_loop_neg: "i < 0 \<Longrightarrow> trim_loop env commits i cur t repo = (Inr cur, repo)"
  by (subst trim_loop.simps) simp

lemma trim_loop_step:
  "0 \<le> i \<Longrightarrow> i < int (length commits) \<Longrightarrow>
   trim_loop env commits i cur t repo =
     (let oldCommit = commits ! nat i in
      case Tree repo oldCommit of
        Inl err \<Rightarrow>
          (Inl (Errorf (''get tree for commit '' @ HashString env (Hash oldCommit)) err), repo)
      | Inr oldTree \<Rightarrow>
         (let newCommit = \<lparr>Hash = 0, Author = Author oldCommit, Committer = rewriter env t,
                 Message = Message oldCommit, TreeHash = tHash oldTree,
                 ParentHashes = [cur]\<rparr> in
          (case Encode env newCommit of
             Some err \<Rightarrow> (Inl (Errorf ''encode rebased commit'' err), repo)
           | None \<Rightarrow>
              (case SetEncodedObject env repo newCommit of
                 Inl err \<Rightarrow> (Inl (Errorf ''store rebased commit'' err), repo)
               | Inr (newCommitHash, repo') \<Rightarrow>
                   trim_loop env commits (i - 1) newCommitHash (Suc t) repo'))))"
  by (subst trim_loop.simps) simp

lemma trim_loop_Inr:
  "n = nat (i + 1) \<Longrightarrow> i < int (length commits) \<Longrightarrow>
   trim_loop env commits i cur t repo = (Inr h, repo') \<Longrightarrow>
     repo' = repo\<lparr>Commits := rev (rechain env Message [cur] t (rev (take n commits)))
                               @ Commits repo\<rparr>
     \<and> h = last (cur # map Hash (rechain env Message [cur] t (rev (take n commits))))"
proof (induction n arbitrary: i cur t repo)
  case 0
  then have "i < 0" by simp
  with 0 show ?case by (simp add: trim_loop_neg)
next
  case (Suc n)
  then have i: "0 \<le> i" "nat i = n" "n < length commits" by simp_all
  define old where "old = commits ! nat i"
  note unf = trim_loop_step [OF i(1) Suc.prems(2), of env cur t repo, folded old_def]
  from Suc.prems(3) [unfolded unf] obtain tr where tr: "Tree repo old = Inr tr"
    by (auto split: sum.splits)
  define new where "new = \<lparr>Hash = 0, Author = Author old, Committer = rewriter env t,
     Message = Message old, TreeHash = TreeHash old, ParentHashes = [cur]\<rparr>"
  from Suc.prems(3) [unfolded unf] tr obtain h1 repo1 where
    st: "SetEncodedObject env repo new = Inr (h1, repo1)"
    and rest: "trim_loop env commits (i - 1) h1 (Suc t) repo1 = (Inr h, repo')"
    by (auto simp: Let_def new_def Tree_Inr split: sum.splits option.splits)
  from SetEncodedObject_Inr [OF st] have h1: "h1 = hashf env new"
    and repo1: "repo1 = repo\<lparr>Commits := new\<lparr>Hash := hashf env new\<rparr> # Commits repo\<rparr>"
    by simp_all
  have n: "n = nat (i - 1 + 1)" "i - 1 < int (length commits)" using i by simp_all
  have tk: "rev (take (Suc n) commits) = old # rev (take n commits)"
    using i by (simp add: take_Suc_conv_app_nth old_def)
  from Suc.IH [OF n rest] show ?case
    by (simp add: tk h1 repo1 new_def Let_def)
qed

lemma trim_loop_Inl:
  "n = nat (i + 1) \<Longrightarrow> i < int (length commits) \<Longrightarrow>
   trim_loop env commits i cur t repo = (Inl e, repo') \<Longrightarrow>
     Refs repo' = Refs repo \<and> Pushes repo' = Pushes repo \<and> (\<exists>p e'. e = Errorf p e')"
proof (induction n arbitrary: i cur t repo)
  case 0
  then have "i < 0" by simp
  with 0 show ?case by (simp add: trim_loop_neg)
next
  case (Suc n)
  then have i: "0 \<le> i" "nat i = n" "n < length commits" by simp_all
  define old where "old = commits ! nat i"
  note unf = trim_loop_step [OF i(1) Suc.prems(2), of env cur t repo, folded old_def]
  have n: "n = nat (i - 1 + 1)" "i - 1 < int (length commits)" using i by simp_all
  show ?case
  proof (cases "Tree repo old")
    case (Inl err)
    with Suc.prems(3) [unfolded unf] show ?thesis by auto
  next
    case (Inr tr)
    define new where "new = \<lparr>Hash = 0, Author = Author old, Committer = rewriter env t,
       Message = Message old, TreeHash = tHash tr, ParentHashes = [cur]\<rparr>"
    show ?thesis
    proof (cases "Encode env new")
      case (Some err)
      with Suc.prems(3) [unfolded unf] Inr show ?thesis by (auto simp: new_def Let_def)
    next
      case None
      show ?thesis
      proof (cases "SetEncodedObject env repo new")
        case (Inl err)
        with Suc.prems(3) [unfolded unf] Inr None show ?thesis by (auto simp: new_def Let_def)
      next
        case stored: (Inr p)
        obtain h1 repo1 where p: "p = (h1, repo1)" by (cases p)
        with Suc.prems(3) [unfolded unf] Inr None stored
        have "trim_loop env commits (i - 1) h1 (Suc t) repo1 = (Inl e, repo')"
          by (auto simp: new_def Let_def)
        from Suc.IH [OF n this] SetEncodedObject_keeps [OF stored [unfolded p]]
        show ?thesis by simp
      qed
    qed
  qed
qed

lemma length_rechain [simp]: "length (rechain env msg p t olds) = length olds"
  by (induction olds arbitrary: p t) (simp_all add: Let_def)

lemma map_Message_rechain: "map Message (rechain env msg p t olds) = map msg olds"
  by (induction olds arbitrary: p t) (simp_all add: Let_def)

lemma map_TreeHash_rechain: "map TreeHash (rechain env msg p t olds) = map TreeHash olds"
  by (induction olds arbitrary: p t) (simp_all add: Let_def)

lemma map_Author_rechain: "map Author (rechain env msg p t olds) = map Author olds"
  by (induction olds arbitrary: p t) (simp_all add: Let_def)

lemma map_Committer_rechain:
  "map Committer (rechain env msg p t olds) = map (rewriter env) [t..<t + length olds]"
proof (induction olds arbitrary: p t)
  case Nil
  then show ?case by simp
next
  case (Cons old olds)
  have "[t..<t + length (old # olds)] = t # [Suc t..<Suc t + length olds]"
    using upt_conv_Cons [of t "t + Suc (length olds)"] by simp
  with Cons show ?case by (simp add: Let_def)
qed

lemma chained_rechain: "chained p (rechain env msg p t olds)"
  by (induction olds arbitrary: p t) (simp_all add: Let_def)

lemma hashed_rechain:
  "c \<in> set (rechain env msg p t olds) \<Longrightarrow> Hash c = hashf env (c\<lparr>Hash := 0\<rparr>)"
  by (induction olds arbitrary: p t) (auto simp: Let_def)

lemma synthesized_append:
  "Commits repo' = rev new @ Commits repo \<Longrightarrow> synthesized repo repo' = new"
  by (simp add: synthesized_def)

lemma sint_sub1: "- (2 ^ 63) < sint (k :: go_int) \<Longrightarrow> sint (k - 1) = sint k - 1"
  using sint_lt [of k] by (simp add: sint_word_diff signed_take_bit_int_eq_self)

lemma sint_sub2: "2 - 2 ^ 63 \<le> sint (k :: go_int) \<Longrightarrow> sint (k - 2) = sint k - 2"
  using sint_lt [of k] by (simp add: sint_word_diff signed_take_bit_int_eq_self)

lemma TrimOldCommits_success:
  assumes auth: "NewSSHAuth env sshKeyPEM = Inr auth"
    and clone: "CloneToMemory env repoURL auth = Inr repo"
    and head: "Head repo = Inr (refName, headHash)"
    and branch: "IsBranch refName"
    and log: "git_Log env repo headHash = Inr (commits, iterErr)"
    and keep: "1 \<le> sint keep" "sint keep < int (length commits)"
    and ok: "TrimOldCommits env repoURL sshKeyPEM keep = (Inr (), Some repo')"
  shows "\<exists>new. new = rechain env Message [] 0 (rev (take (nat (sint keep)) commits))
           \<and> repo' = repo\<lparr>Commits := rev new @ Commits repo,
                          Refs := (Refs repo)(refName \<mapsto> Hash (last new)),
                          Pushes := Pushes repo @ [(RefSpec refName, True)]\<rparr>"
proof -
  have idx: "sint (keep - 1) = sint keep - 1" "sint (keep - 2) = sint keep - 2"
    using keep by (simp_all add: sint_sub1 sint_sub2)
  define k where "k = nat (sint keep - 1)"
  have k: "k < length commits" "nat (sint keep) = Suc k" "sint keep - 1 = int k"
    using keep by (simp_all add: k_def)
  define root where "root = commits ! k"
  define newRoot where "newRoot = \<lparr>Hash = 0, Author = Author root, Committer = rewriter env 0,
     Message = Message root, TreeHash = TreeHash root, ParentHashes = []\<rparr>"
  from ok obtain h0 repo1 hf repo2 repo3 where
    st: "SetEncodedObject env repo newRoot = Inr (h0, repo1)"
    and loop: "trim_loop env commits (sint keep - 2) h0 1 repo1 = (Inr hf, repo2)"
    and setref: "SetReference env repo2 refName hf = Inr repo3"
    and fin: "repo' = repo3\<lparr>Pushes := Pushes repo3 @ [(RefSpec refName, True)]\<rparr>"
    using auth clone head branch log keep
    by (auto simp: TrimOldCommits_def Let_def idx k root_def newRoot_def Push_def Tree_Inr
             split: sum.splits option.splits prod.splits if_splits)
  from SetEncodedObject_Inr [OF st] have h0: "h0 = hashf env newRoot"
    and repo1: "repo1 = repo\<lparr>Commits := newRoot\<lparr>Hash := hashf env newRoot\<rparr> # Commits repo\<rparr>"
    by simp_all
  have "k = nat (sint keep - 2 + 1)" "sint keep - 2 < int (length commits)"
    using keep by (simp_all add: k_def)
  from trim_loop_Inr [OF this loop]
  have repo2: "repo2 = repo1\<lparr>Commits := rev (rechain env Message [h0] 1 (rev (take k commits)))
                                  @ Commits repo1\<rparr>"
    and hf: "hf = last (h0 # map Hash (rechain env Message [h0] 1 (rev (take k commits))))"
    by simp_all
  from setref have repo3: "repo3 = repo2\<lparr>Refs := (Refs repo2)(refName \<mapsto> hf)\<rparr>"
    by (auto simp: SetReference_def split: option.splits)
  have tk: "rev (take (Suc k) commits) = root # rev (take k commits)"
    using k by (simp add: take_Suc_conv_app_nth root_def)
  have new: "rechain env Message [] 0 (rev (take (nat (sint keep)) commits))
      = newRoot\<lparr>Hash := h0\<rparr> # rechain env Message [h0] 1 (rev (take k commits))"
    by (simp add: k tk Let_def newRoot_def h0)
  have lst: "Hash (last (rechain env Message [] 0 (rev (take (nat (sint keep)) commits)))) = hf"
    unfolding new hf by (simp add: last_map)
  show ?thesis
    by (simp add: fin repo3 repo2 repo1 new [unfolded h0] h0 lst [unfolded new h0, symmetric])
qed

lemma delete_ForEach_eq:
  "delete_ForEach th cs [] ti = (cs, snd (delete_ForEach th cs [] ti))"
  using delete_ForEach_fst [of th cs "[]" ti] by (cases "delete_ForEach th cs [] ti") simp

lemma DeleteCommit_success:
  assumes auth: "NewSSHAuth env sshKeyPEM = Inr auth"
    and clone: "CloneToMemory env repoURL auth = Inr repo"
    and head: "Head repo = Inr (refName, headHash)"
    and branch: "IsBranch refName"
    and log: "git_Log env repo headHash = Inr (commits, iterErr)"
    and ok: "DeleteCommit env repoURL sshKeyPEM commitHash = (Inr (), Some repo')"
  shows "\<exists>k new. k < length commits \<and> 1 < length commits
           \<and> Hash (commits ! k) = NewHash env commitHash
           \<and> (\<forall>j. k < j \<and> j < length commits \<longrightarrow> Hash (commits ! j) \<noteq> NewHash env commitHash)
           \<and> new = rechain env Message [] 0 (rev (take k commits @ drop (Suc k) commits))
           \<and> repo' = repo\<lparr>Commits := rev new @ Commits repo,
                          Refs := (Refs repo)(refName \<mapsto> Hash (last new)),
                          Pushes := Pushes repo @ [(RefSpec refName, True)]\<rparr>"
proof -
  let ?th = "NewHash env commitHash"
  define ti where "ti = snd (delete_ForEach ?th commits [] (- 1))"
  have fe: "delete_ForEach ?th commits [] (- 1) = (commits, ti)"
    unfolding ti_def by (rule delete_ForEach_eq)
  have present: "?th \<in> Hash ` set commits"
  proof (rule ccontr)
    assume "?th \<notin> Hash ` set commits"
    then have "ti = - 1" unfolding ti_def by (rule delete_ForEach_snd_absent)
    with ok auth clone head branch log fe show False
      by (simp add: DeleteCommit_def)
  qed
  from delete_ForEach_snd_present [OF present, of "[]" "- 1"]
  obtain k where k: "k < length commits" "Hash (commits ! k) = ?th"
    "\<forall>j. k < j \<and> j < length commits \<longrightarrow> Hash (commits ! j) \<noteq> ?th" "ti = int k"
    unfolding ti_def by auto
  have len: "length commits \<noteq> 1"
  proof
    assume "length commits = 1"
    with ok auth clone head branch log fe k(4) show False
      by (simp add: DeleteCommit_def CannotDeleteSoleCommit_def)
  qed
  with k(1) have L: "1 < length commits" by simp
  define olds where "olds = rev (take k commits @ drop (Suc k) commits)"
  have skip: "delete_skip commits ti (int (length commits) - 1) [] = olds"
    unfolding k(4) olds_def by (rule delete_skip_eq [OF k(1)])
  have ne: "olds \<noteq> []" using L k(1) by (auto simp: olds_def)
  from ok obtain hf repo2 repo3 where
    loop: "delete_rebuild env olds 0 0 repo = (Inr hf, repo2)"
    and setref: "SetReference env repo2 refName hf = Inr repo3"
    and fin: "repo' = repo3\<lparr>Pushes := Pushes repo3 @ [(RefSpec refName, True)]\<rparr>"
    using auth clone head branch log fe len k(4) skip
    by (auto simp: DeleteCommit_def Let_def Push_def
             split: sum.splits option.splits prod.splits if_splits)
  from delete_rebuild_Inr [OF loop]
  have repo2: "repo2 = repo\<lparr>Commits := rev (rechain env Message [] 0 olds) @ Commits repo\<rparr>"
    and hf: "hf = last (0 # map Hash (rechain env Message [] 0 olds))"
    by simp_all
  from ne have "rechain env Message [] 0 olds \<noteq> []"
    by (metis length_rechain length_0_conv)
  with hf have hf': "hf = Hash (last (rechain env Message [] 0 olds))"
    by (simp add: last_map)
  from setref have repo3: "repo3 = repo2\<lparr>Refs := (Refs repo2)(refName \<mapsto> hf)\<rparr>"
    by (auto simp: SetReference_def split: option.splits)
  show ?thesis
    using k L by (intro exI [of _ k] exI [of _ "rechain env Message [] 0 olds"])
      (simp add: fin repo3 repo2 hf' olds_def)
qed

lemma modify_reverse_eq: "modify_reverse cs (int (length cs) - 1) [] = rev cs"
  using modify_reverse_upt [of "length cs" cs "[]"] by simp

lemma ModifyCommit_success:
  assumes auth: "NewSSHAuth env sshKeyPEM = Inr auth"
    and clone: "CloneToMemory env repoURL auth = Inr repo"
    and head: "Head repo = Inr (refName, headHash)"
    and branch: "IsBranch refName"
    and log: "git_Log env repo headHash = Inr (commits, iterErr)"
    and ok: "ModifyCommit env repoURL sshKeyPEM commitHash newCommitMsg = (Inr (), Some repo')"
  shows "\<exists>new. NewHash env commitHash \<in> Hash ` set commits
           \<and> new = rechain env (\<lambda>c. if Hash c = NewHash env commitHash then newCommitMsg
                                      else Message c) [] 0 (rev commits)
           \<and> repo' = repo\<lparr>Commits := rev new @ Commits repo,
                          Refs := (Refs repo)(refName \<mapsto> Hash (last new)),
                          Pushes := Pushes repo @ [(RefSpec refName, True)]\<rparr>"
proof -
  let ?th = "NewHash env commitHash"
  let ?msg = "\<lambda>c. if Hash c = ?th then newCommitMsg else Message c"
  have fe: "modify_ForEach ?th commits [] False = (commits, ?th \<in> Hash ` set commits)"
    by (simp add: modify_ForEach_eq)
  have present: "?th \<in> Hash ` set commits"
  proof (rule ccontr)
    assume "?th \<notin> Hash ` set commits"
    with ok auth clone head branch log fe show False
      by (simp add: ModifyCommit_def)
  qed
  then have ne: "commits \<noteq> []" by auto
  from ok obtain hf repo2 repo3 where
    loop: "modify_rebuild env ?th newCommitMsg (rev commits) 0 0 repo = (Inr hf, repo2)"
    and setref: "SetReference env repo2 refName hf = Inr repo3"
    and fin: "repo' = repo3\<lparr>Pushes := Pushes repo3 @ [(RefSpec refName, True)]\<rparr>"
    using auth clone head branch log fe present
    by (auto simp: ModifyCommit_def Let_def Push_def modify_reverse_eq
             split: sum.splits option.splits prod.splits if_splits)
  from modify_rebuild_Inr [OF loop]
  have repo2: "repo2 = repo\<lparr>Commits := rev (rechain env ?msg [] 0 (rev commits)) @ Commits repo\<rparr>"
    and hf: "hf = last (0 # map Hash (rechain env ?msg [] 0 (rev commits)))"
    by simp_all
  from ne have "rechain env ?msg [] 0 (rev commits) \<noteq> []"
    by (metis length_rechain length_0_conv rev_is_Nil_conv)
  with hf have hf': "hf = Hash (last (rechain env ?msg [] 0 (rev commits)))"
    by (simp add: last_map)
  from setref have repo3: "repo3 = repo2\<lparr>Refs := (Refs repo2)(refName \<mapsto> hf)\<rparr>"
    by (auto simp: SetReference_def split: option.splits)
  show ?thesis
    using present by (simp add: fin repo3 repo2 hf')
qed

lemma write_fails_Cons:
  "write_fails env (c # cs) =
     (Encode env (c\<lparr>Hash := 0\<rparr>) \<noteq> None \<or> store_err env (c\<lparr>Hash := 0\<rparr>) \<noteq> None
      \<or> write_fails env cs)"
  by (auto simp: write_fails_def)

lemma SetEncodedObject_Inr_store: "SetEncodedObject env repo c = Inr p \<Longrightarrow> store_err env c = None"
  by (auto simp: SetEncodedObject_def split: option.splits)

lemma delete_rebuild_Inr_ok:
  "delete_rebuild env olds i cur repo = (Inr h, repo') \<Longrightarrow>
     \<not> write_fails env (rechain env Message (if 0 < i then [cur] else []) i olds)"
proof (induction olds arbitrary: i cur repo)
  case Nil
  then show ?case by (simp add: write_fails_def)
next
  case (Cons old olds)
  from Cons.prems obtain tr where tr: "Tree repo old = Inr tr"
    by (auto split: sum.splits)
  define new where "new = \<lparr>Hash = 0, Author = Author old, Committer = rewriter env i,
     Message = Message old, TreeHash = TreeHash old,
     ParentHashes = (if 0 < i then [cur] else [])\<rparr>"
  from Cons.prems tr obtain h1 repo1 where
    en: "Encode env new = None"
    and st: "SetEncodedObject env repo new = Inr (h1, repo1)"
    and rest: "delete_rebuild env olds (Suc i) h1 repo1 = (Inr h, repo')"
    by (auto simp: Let_def new_def Tree_Inr split: sum.splits option.splits)
  from SetEncodedObject_Inr [OF st] have h1: "h1 = hashf env new" by simp
  from Cons.IH [OF rest] en SetEncodedObject_Inr_store [OF st] show ?case
    by (simp add: write_fails_Cons Let_def h1 new_def)
qed

lemma modify_rebuild_Inr_ok:
  "modify_rebuild env th msg olds i cur repo = (Inr h, repo') \<Longrightarrow>
     \<not> write_fails env (rechain env (\<lambda>c. if Hash c = th then msg else Message c)
                          (if 0 < i then [cur] else []) i olds)"
proof (induction olds arbitrary: i cur repo)
  case Nil
  then show ?case by (simp add: write_fails_def)
next
  case (Cons old olds)
  from Cons.prems obtain tr where tr: "Tree repo old = Inr tr"
    by (auto split: sum.splits)
  define new where "new = \<lparr>Hash = 0, Author = Author old, Committer = rewriter env i,
     Message = (if Hash old = th then msg else Message old), TreeHash = TreeHash old,
     ParentHashes = (if 0 < i then [cur] else [])\<rparr>"
  from Cons.prems tr obtain h1 repo1 where
    en: "Encode env new = None"
    and st: "SetEncodedObject env repo new = Inr (h1, repo1)"
    and rest: "modify_rebuild env th msg olds (Suc i) h1 repo1 = (Inr h, repo')"
    by (auto simp: Let_def new_def Tree_Inr split: sum.splits option.splits)
  from SetEncodedObject_Inr [OF st] have h1: "h1 = hashf env new" by simp
  from Cons.IH [OF rest] en SetEncodedObject_Inr_store [OF st] show ?case
    by (simp add: write_fails_Cons Let_def h1 new_def)
qed

lemma trim_loop_Inr_ok:
  "n = nat (i + 1) \<Longrightarrow> i < int (length commits) \<Longrightarrow>
   trim_loop env commits i cur t repo = (Inr h, repo') \<Longrightarrow>
     \<not> write_fails env (rechain env Message [cur] t (rev (take n commits)))"
proof (induction n arbitrary: i cur t repo)
  case 0
  then show ?case by (simp add: write_fails_def)
next
  case (Suc n)
  then have i: "0 \<le> i" "nat i = n" "n < length commits" by simp_all
  define old where "old = commits ! nat i"
  note unf = trim_loop_step [OF i(1) Suc.prems(2), of env cur t repo, folded old_def]
  from Suc.prems(3) [unfolded unf] obtain tr where tr: "Tree repo old = Inr tr"
    by (auto split: sum.splits)
  define new where "new = \<lparr>Hash = 0, Author = Author old, Committer = rewriter env t,
     Message = Message old, TreeHash = TreeHash old, ParentHashes = [cur]\<rparr>"
  from Suc.prems(3) [unfolded unf] tr obtain h1 repo1 where
    en: "Encode env new = None"
    and st: "SetEncodedObject env repo new = Inr (h1, repo1)"
    and rest: "trim_loop env commits (i - 1) h1 (Suc t) repo1 = (Inr h, repo')"
    by (auto simp: Let_def new_def Tree_Inr split: sum.splits option.splits)
  from SetEncodedObject_Inr [OF st] have h1: "h1 = hashf env new" by simp
  have n: "n = nat (i - 1 + 1)" "i - 1 < int (length commits)" using i by simp_all
  have tk: "rev (take (Suc n) commits) = old # rev (take n commits)"
    using i by (simp add: take_Suc_conv_app_nth old_def)
  from Suc.IH [OF n rest] en SetEncodedObject_Inr_store [OF st] show ?case
    by (simp add: tk write_fails_Cons Let_def h1 new_def)
qed

lemma TrimOldCommits_write_fails:
  assumes auth: "NewSSHAuth env sshKeyPEM = Inr auth"
    and clone: "CloneToMemory env repoURL auth = Inr repo"
    and head: "Head repo = Inr (refName, headHash)"
    and branch: "IsBranch refName"
    and log: "git_Log env repo headHash = Inr (commits, iterErr)"
    and keep: "1 \<le> sint keep" "sint keep < int (length commits)"
    and bad: "write_fails env (rechain env Message [] 0 (rev (take (nat (sint keep)) commits)))"
  shows "\<exists>e repo'. TrimOldCommits env repoURL sshKeyPEM keep = (Inl e, Some repo')
           \<and> Refs repo' = Refs repo \<and> Pushes repo' = Pushes repo"
proof -
  have idx: "sint (keep - 1) = sint keep - 1" "sint (keep - 2) = sint keep - 2"
    using keep by (simp_all add: sint_sub1 sint_sub2)
  define k where "k = nat (sint keep - 1)"
  have k: "k < length commits" "nat (sint keep) = Suc k" "sint keep - 1 = int k"
    using keep by (simp_all add: k_def)
  define root where "root = commits ! k"
  have tk: "rev (take (Suc k) commits) = root # rev (take k commits)"
    using k by (simp add: take_Suc_conv_app_nth root_def)
  show ?thesis
  proof (cases "Tree repo root")
    case (Inl err)
    then show ?thesis
      using auth clone head branch log keep
      by (simp add: TrimOldCommits_def Let_def idx k root_def)
  next
    case (Inr tr)
    define newRoot where "newRoot = \<lparr>Hash = 0, Author = Author root,
       Committer = rewriter env 0, Message = Message root, TreeHash = TreeHash root,
       ParentHashes = []\<rparr>"
    have tr: "tHash tr = TreeHash root" using Inr by (rule Tree_Inr)
    show ?thesis
    proof (cases "Encode env newRoot")
      case (Some err)
      then show ?thesis
        using auth clone head branch log keep Inr tr
        by (simp add: TrimOldCommits_def Let_def idx k root_def newRoot_def)
    next
      case None
      show ?thesis
      proof (cases "SetEncodedObject env repo newRoot")
        case (Inl err)
        then show ?thesis
          using auth clone head branch log keep Inr tr None
          by (simp add: TrimOldCommits_def Let_def idx k root_def newRoot_def)
      next
        case stored: (Inr p)
        obtain h0 repo1 where p: "p = (h0, repo1)" by (cases p)
        note st = stored [unfolded p]
        from SetEncodedObject_Inr [OF st] have h0: "h0 = hashf env newRoot" by simp
        obtain r repo2 where loop:
          "trim_loop env commits (sint keep - 2) h0 1 repo1 = (r, repo2)"
          by (cases "trim_loop env commits (sint keep - 2) h0 1 repo1")
        have n: "k = nat (sint keep - 2 + 1)" "sint keep - 2 < int (length commits)"
          using keep by (simp_all add: k_def)
        from bad have "write_fails env (rechain env Message [h0] 1 (rev (take k commits)))"
          using None SetEncodedObject_Inr_store [OF st]
          by (simp add: k tk Let_def write_fails_Cons newRoot_def h0)
        with trim_loop_Inr_ok [OF n] loop obtain e where r: "r = Inl e"
          by (cases r) auto
        from trim_loop_Inl [OF n loop [unfolded r]] SetEncodedObject_keeps [OF st]
        have "Refs repo2 = Refs repo" "Pushes repo2 = Pushes repo" by simp_all
        then show ?thesis
          using auth clone head branch log keep Inr tr None st loop r
          by (simp add: TrimOldCommits_def Let_def idx k root_def newRoot_def)
      qed
    qed
  qed
qed

lemma last_index_unique:
  assumes "k < length cs" "Hash (cs ! k) = th" "\<forall>j. k < j \<and> j < length cs \<longrightarrow> Hash (cs ! j) \<noteq> th"
    and "k' < length cs" "Hash (cs ! k') = th" "\<forall>j. k' < j \<and> j < length cs \<longrightarrow> Hash (cs ! j) \<noteq> th"
  shows "k = k'"
proof (rule ccontr)
  assume "k \<noteq> k'"
  then consider "k < k'" | "k' < k" by linarith
  then show False using assms by cases auto
qed

lemma delete_ForEach_index:
  assumes "k < length cs" "Hash (cs ! k) = th" "\<forall>j. k < j \<and> j < length cs \<longrightarrow> Hash (cs ! j) \<noteq> th"
  shows "delete_ForEach th cs [] (- 1) = (cs, int k)"
proof -
  from assms(1,2) have "th \<in> Hash ` set cs" by (metis imageI nth_mem)
  from delete_ForEach_snd_present [OF this, of "[]" "- 1"] obtain k' where
    k': "k' < length cs" "Hash (cs ! k') = th"
      "\<forall>j. k' < j \<and> j < length cs \<longrightarrow> Hash (cs ! j) \<noteq> th"
      "snd (delete_ForEach th cs [] (- 1)) = int k'"
    by auto
  from last_index_unique [OF assms k'(1,2,3)] k'(4) show ?thesis
    using delete_ForEach_eq [of th cs "- 1"] by simp
qed

lemma DeleteCommit_write_fails:
  assumes auth: "NewSSHAuth env sshKeyPEM = Inr auth"
    and clone: "CloneToMemory env repoURL auth = Inr repo"
    and head: "Head repo = Inr (refName, headHash)"
    and branch: "IsBranch refName"
    and log: "git_Log env repo headHash = Inr (commits, iterErr)"
    and k: "k < length commits" "Hash (commits ! k) = NewHash env commitHash"
      "\<forall>j. k < j \<and> j < length commits \<longrightarrow> Hash (commits ! j) \<noteq> NewHash env commitHash"
    and L: "1 < length commits"
    and bad: "write_fails env
                (rechain env Message [] 0 (rev (take k commits @ drop (Suc k) commits)))"
  shows "\<exists>e repo'. DeleteCommit env repoURL sshKeyPEM commitHash = (Inl e, Some repo')
           \<and> Refs repo' = Refs repo \<and> Pushes repo' = Pushes repo"
proof -
  define olds where "olds = rev (take k commits @ drop (Suc k) commits)"
  have fe: "delete_ForEach (NewHash env commitHash) commits [] (- 1) = (commits, int k)"
    by (rule delete_ForEach_index [OF k])
  have skip: "delete_skip commits (int k) (int (length commits) - 1) [] = olds"
    unfolding olds_def by (rule delete_skip_eq [OF k(1)])
  obtain r repo2 where loop: "delete_rebuild env olds 0 0 repo = (r, repo2)"
    by (cases "delete_rebuild env olds 0 0 repo")
  from bad delete_rebuild_Inr_ok [of env olds 0 0 repo] loop obtain e where r: "r = Inl e"
    by (cases r) (auto simp: olds_def)
  from delete_rebuild_Inl [OF loop [unfolded r]]
  have "Refs repo2 = Refs repo" "Pushes repo2 = Pushes repo" by simp_all
  then show ?thesis
    using auth clone head branch log fe skip L loop r
    by (simp add: DeleteCommit_def Let_def)
qed

lemma ModifyCommit_write_fails:
  assumes auth: "NewSSHAuth env sshKeyPEM = Inr auth"
    and clone: "CloneToMemory env repoURL auth = Inr repo"
    and head: "Head repo = Inr (refName, headHash)"
    and branch: "IsBranch refName"
    and log: "git_Log env repo headHash = Inr (commits, iterErr)"
    and present: "NewHash env commitHash \<in> Hash ` set commits"
    and bad: "write_fails env
                (rechain env (\<lambda>c. if Hash c = NewHash env commitHash then newCommitMsg
                                   else Message c) [] 0 (rev commits))"
  shows "\<exists>e repo'. ModifyCommit env repoURL sshKeyPEM commitHash newCommitMsg
                      = (Inl e, Some repo')
           \<and> Refs repo' = Refs repo \<and> Pushes repo' = Pushes repo"
proof -
  let ?th = "NewHash env commitHash"
  have fe: "modify_ForEach ?th commits [] False = (commits, True)"
    using present by (simp add: modify_ForEach_eq)
  obtain r repo2 where loop:
    "modify_rebuild env ?th newCommitMsg (rev commits) 0 0 repo = (r, repo2)"
    by (cases "modify_rebuild env ?th newCommitMsg (rev commits) 0 0 repo")
  from bad modify_rebuild_Inr_ok [of env ?th newCommitMsg "rev commits" 0 0 repo] loop
  obtain e where r: "r = Inl e"
    by (cases r) auto
  from modify_rebuild_Inl [OF loop [unfolded r]]
  have "Refs repo2 = Refs repo" "Pushes repo2 = Pushes repo" by simp_all
  then show ?thesis
    using auth clone head branch log fe loop r
    by (simp add: ModifyCommit_def Let_def modify_reverse_eq)
qed

lemma rechain_fresh:
  assumes addressed: "\<forall>c \<in> set originals. Hash c = hashf env (c\<lparr>Hash := 0\<rparr>)"
    and inj: "inj_on (hashf env)
                ((\<lambda>c. c\<lparr>Hash := 0\<rparr>) ` (set originals \<union> set (rechain env msg p t olds)))"
    and committer: "\<forall>c \<in> set originals. \<forall>j < length olds. Committer c \<noteq> rewriter env (t + j)"
    and n: "n \<in> set (rechain env msg p t olds)"
  shows "Hash n \<notin> Hash ` set originals"
proof
  assume "Hash n \<in> Hash ` set originals"
  then obtain c where c: "c \<in> set originals" "Hash n = Hash c" by auto
  from hashed_rechain [OF n] addressed c
  have "hashf env (n\<lparr>Hash := 0\<rparr>) = hashf env (c\<lparr>Hash := 0\<rparr>)" by simp
  with inj n c(1) have "n\<lparr>Hash := 0\<rparr> = c\<lparr>Hash := 0\<rparr>"
    by (auto dest!: inj_onD)
  then have eq: "Committer n = Committer c"
    by (metis commit.select_convs(3) commit.surjective commit.update_convs(1))
  from n have "Committer n \<in> set (map Committer (rechain env msg p t olds))" by simp
  then obtain x where "x \<in> set [t..<t + length olds]" "Committer n = rewriter env x"
    unfolding map_Committer_rechain by auto
  then obtain j where "j < length olds" "Committer n = rewriter env (t + j)"
    by (auto intro: that [of "x - t"])
  with committer c(1) eq show False by metis
qed

lemma rewritten_rechain: "rewritten env msg olds (rechain env msg [] 0 olds)"
proof -
  have "list_all2 (\<lambda>n old. Hash n = hashf env (n\<lparr>Hash := 0\<rparr>)
                     \<and> TreeHash n = TreeHash old \<and> Author n = Author old
                     \<and> Message n = msg old) (rechain env msg p t olds) olds" for p t
    by (induction olds arbitrary: p t) (simp_all add: Let_def)
  then show ?thesis
    using map_Committer_rechain [of env msg "[]" 0 olds]
    by (simp add: rewritten_def chained_rechain)
qed

lemma chained_nth:
  "chained p news \<Longrightarrow> Suc i < length news \<Longrightarrow> ParentHashes (news ! Suc i) = [Hash (news ! i)]"
proof (induction news arbitrary: p i)
  case Nil
  then show ?case by simp
next
  case (Cons c cs)
  then show ?case by (cases i) (auto simp: nth_Cons' split: if_splits, (cases cs; simp)+)
qed

lemma chained_hd: "chained p news \<Longrightarrow> news \<noteq> [] \<Longrightarrow> ParentHashes (hd news) = p"
  by (cases news) simp_all

lemma sint_min_sub1: "sint (k :: go_int) = - (2 ^ 63) \<Longrightarrow> sint (k - 1) = 2 ^ 63 - 1"
  by (simp add: sint_word_diff)

lemma TrimOldCommits_error_wrapped:
  assumes auth: "NewSSHAuth env sshKeyPEM = Inr auth"
    and clone: "CloneToMemory env repoURL auth = Inr repo"
    and head: "Head repo = Inr (refName, headHash)"
    and branch: "IsBranch refName"
    and log: "git_Log env repo headHash = Inr (commits, iterErr)"
    and keep: "1 \<le> sint keep" "sint keep < int (length commits)"
    and res: "TrimOldCommits env repoURL sshKeyPEM keep = (Inl e, x)"
  shows "\<exists>p e'. e = Errorf p e'"
proof -
  have idx: "sint (keep - 1) = sint keep - 1" "sint (keep - 2) = sint keep - 2"
    using keep by (simp_all add: sint_sub1 sint_sub2)
  define k where "k = nat (sint keep - 1)"
  have k: "k < length commits" "sint keep - 1 = int k"
    using keep by (simp_all add: k_def)
  define root where "root = commits ! k"
  have n: "k = nat (sint keep - 2 + 1)" "sint keep - 2 < int (length commits)"
    using keep by (simp_all add: k_def)
  show ?thesis
  proof (cases "Tree repo root")
    case (Inl err)
    then have "TrimOldCommits env repoURL sshKeyPEM keep
                 = (Inl (Errorf ''get tree for new root'' err), Some repo)"
      using k(1) auth clone head branch log keep
      by (simp add: TrimOldCommits_def Let_def idx k(2) root_def)
    with res show ?thesis by auto
  next
    case (Inr tr)
    define newRoot where "newRoot = \<lparr>Hash = 0, Author = Author root,
       Committer = rewriter env 0, Message = Message root, TreeHash = tHash tr,
       ParentHashes = []\<rparr>"
    show ?thesis
    proof (cases "Encode env newRoot")
      case (Some err)
      then have "TrimOldCommits env repoURL sshKeyPEM keep
                   = (Inl (Errorf ''encode new root commit'' err), Some repo)"
        using k(1) auth clone head branch log keep Inr
        by (simp add: TrimOldCommits_def Let_def idx k(2) root_def newRoot_def)
      with res show ?thesis by auto
    next
      case None
      show ?thesis
      proof (cases "SetEncodedObject env repo newRoot")
        case (Inl err)
        then have "TrimOldCommits env repoURL sshKeyPEM keep
                     = (Inl (Errorf ''store new root commit'' err), Some repo)"
          using k(1) auth clone head branch log keep Inr None
          by (simp add: TrimOldCommits_def Let_def idx k(2) root_def newRoot_def)
        with res show ?thesis by auto
      next
        case stored: (Inr p)
        obtain h0 repo1 where p: "p = (h0, repo1)" by (cases p)
        note st = stored [unfolded p]
        obtain r repo2 where loop:
          "trim_loop env commits (sint keep - 2) h0 1 repo1 = (r, repo2)"
          by (cases "trim_loop env commits (sint keep - 2) h0 1 repo1")
        show ?thesis
        proof (cases r)
          case (Inl e1)
          from trim_loop_Inl [OF n loop [unfolded Inl]] obtain p1 e1' where e1: "e1 = Errorf p1 e1'"
            by blast
          have "TrimOldCommits env repoURL sshKeyPEM keep = (Inl e1, Some repo2)"
            using k(1) auth clone head branch log keep Inr None st loop Inl
            by (simp add: TrimOldCommits_def Let_def idx k(2) root_def newRoot_def)
          with res e1 show ?thesis by auto
        next
          case hf: (Inr hf)
          show ?thesis
          proof (cases "SetReference env repo2 refName hf")
            case (Inl err)
            then have "TrimOldCommits env repoURL sshKeyPEM keep
                         = (Inl (Errorf ''set ref'' err), Some repo2)"
              using k(1) auth clone head branch log keep Inr None st loop hf
              by (simp add: TrimOldCommits_def Let_def idx k(2) root_def newRoot_def)
            with res show ?thesis by auto
          next
            case ref: (Inr repo3)
            obtain pe repo4 where push: "Push env repo3 (RefSpec refName) True = (pe, repo4)"
              by (cases "Push env repo3 (RefSpec refName) True")
            have "TrimOldCommits env repoURL sshKeyPEM keep
                    = (case pe of Some err \<Rightarrow> (Inl (Errorf ''push'' err), Some repo4)
                       | None \<Rightarrow> (Inr (), Some repo4))"
              using k(1) auth clone head branch log keep Inr None st loop hf ref push
              by (simp add: TrimOldCommits_def Let_def idx k(2) root_def newRoot_def
                       split: option.splits)
            with res show ?thesis by (cases pe) auto
          qed
        qed
      qed
    qed
  qed
qed

subsection \<open>The rewrites succeed when their collaborators do\<close>

lemma delete_rebuild_ok:
  assumes "\<forall>c \<in> set olds. TreeHash c \<in> Trees repo"
    and "\<forall>c. encode_err env c = None" and "\<forall>c. store_err env c = None"
  shows "delete_rebuild env olds i cur repo
           = (Inr (last (cur # map Hash (rechain env Message (if 0 < i then [cur] else []) i olds))),
              repo\<lparr>Commits := rev (rechain env Message (if 0 < i then [cur] else []) i olds)
                                @ Commits repo\<rparr>)"
  using assms
proof (induction olds arbitrary: i cur repo)
  case Nil
  then show ?case by simp
next
  case (Cons old olds)
  define new where "new = \<lparr>Hash = 0, Author = Author old, Committer = rewriter env i,
     Message = Message old, TreeHash = TreeHash old,
     ParentHashes = (if 0 < i then [cur] else [])\<rparr>"
  define repo1 where "repo1 = repo\<lparr>Commits := new\<lparr>Hash := hashf env new\<rparr> # Commits repo\<rparr>"
  have trees: "\<forall>c \<in> set olds. TreeHash c \<in> Trees repo1"
    using Cons.prems(1) by (simp add: repo1_def)
  have step: "delete_rebuild env (old # olds) i cur repo
                = delete_rebuild env olds (Suc i) (hashf env new) repo1"
    using Cons.prems
    by (simp add: Tree_def Encode_def SetEncodedObject_def Let_def new_def repo1_def)
  show ?case
    unfolding step Cons.IH [OF trees Cons.prems(2,3)]
    by (simp add: Let_def new_def repo1_def)
qed

lemma modify_rebuild_ok:
  assumes "\<forall>c \<in> set olds. TreeHash c \<in> Trees repo"
    and "\<forall>c. encode_err env c = None" and "\<forall>c. store_err env c = None"
  shows "modify_rebuild env th msg olds i cur repo
           = (Inr (last (cur # map Hash
                 (rechain env (\<lambda>c. if Hash c = th then msg else Message c)
                    (if 0 < i then [cur] else []) i olds))),
              repo\<lparr>Commits := rev (rechain env (\<lambda>c. if Hash c = th then msg else Message c)
                                     (if 0 < i then [cur] else []) i olds)
                                @ Commits repo\<rparr>)"
  using assms
proof (induction olds arbitrary: i cur repo)
  case Nil
  then show ?case by simp
next
  case (Cons old olds)
  define new where "new = \<lparr>Hash = 0, Author = Author old, Committer = rewriter env i,
     Message = (if Hash old = th then msg else Message old), TreeHash = TreeHash old,
     ParentHashes = (if 0 < i then [cur] else [])\<rparr>"
  define repo1 where "repo1 = repo\<lparr>Commits := new\<lparr>Hash := hashf env new\<rparr> # Commits repo\<rparr>"
  have trees: "\<forall>c \<in> set olds. TreeHash c \<in> Trees repo1"
    using Cons.prems(1) by (simp add: repo1_def)
  have step: "modify_rebuild env th msg (old # olds) i cur repo
                = modify_rebuild env th msg olds (Suc i) (hashf env new) repo1"
    using Cons.prems
    by (simp add: Tree_def Encode_def SetEncodedObject_def Let_def new_def repo1_def)
  show ?case
    unfolding step Cons.IH [OF trees Cons.prems(2,3)]
    by (simp add: Let_def new_def repo1_def)
qed

lemma trim_loop_ok:
  assumes "\<forall>c \<in> set (take n commits). TreeHash c \<in> Trees repo"
    and "\<forall>c. encode_err env c = None" and "\<forall>c. store_err env c = None"
    and "n = nat (i + 1)" and "i < int (length commits)"
  shows "trim_loop env commits i cur t repo
           = (Inr (last (cur # map Hash (rechain env Message [cur] t (rev (take n commits))))),
              repo\<lparr>Commits := rev (rechain env Message [cur] t (rev (take n commits)))
                                @ Commits repo\<rparr>)"
  using assms
proof (induction n arbitrary: i cur t repo)
  case 0
  then have "i < 0" by simp
  then show ?case by (simp add: trim_loop_neg)
next
  case (Suc n)
  then have i: "0 \<le> i" "nat i = n" "n < length commits" by simp_all
  define old where "old = commits ! nat i"
  define new where "new = \<lparr>Hash = 0, Author = Author old, Committer = rewriter env t,
     Message = Message old, TreeHash = TreeHash old, ParentHashes = [cur]\<rparr>"
  define repo1 where "repo1 = repo\<lparr>Commits := new\<lparr>Hash := hashf env new\<rparr> # Commits repo\<rparr>"
  have tk: "take (Suc n) commits = take n commits @ [old]"
    using i by (simp add: take_Suc_conv_app_nth old_def)
  have old: "TreeHash old \<in> Trees repo"
    using Suc.prems(1) by (simp add: tk)
  have trees: "\<forall>c \<in> set (take n commits). TreeHash c \<in> Trees repo1"
    using Suc.prems(1) by (simp add: tk repo1_def)
  have n: "n = nat (i - 1 + 1)" "i - 1 < int (length commits)" using i by simp_all
  have step: "trim_loop env commits i cur t repo
                = trim_loop env commits (i - 1) (hashf env new) (Suc t) repo1"
    unfolding trim_loop_step [OF i(1) Suc.prems(5)]
    using old Suc.prems(2,3)
    by (simp add: Tree_def Encode_def SetEncodedObject_def Let_def new_def repo1_def old_def)
  show ?case
    unfolding step Suc.IH [OF trees Suc.prems(2,3) n]
    by (simp add: tk Let_def new_def repo1_def)
qed

lemma TrimOldCommits_ok:
  assumes auth: "NewSSHAuth env sshKeyPEM = Inr auth"
    and clone: "CloneToMemory env repoURL auth = Inr repo"
    and head: "Head repo = Inr (refName, headHash)"
    and branch: "IsBranch refName"
    and log: "git_Log env repo headHash = Inr (commits, iterErr)"
    and keep: "1 \<le> sint keep" "sint keep < int (length commits)"
    and collab: "collaborators_succeed env repo refName (take (nat (sint keep)) commits)"
  shows "\<exists>repo'. TrimOldCommits env repoURL sshKeyPEM keep = (Inr (), Some repo')"
proof -
  have idx: "sint (keep - 1) = sint keep - 1" "sint (keep - 2) = sint keep - 2"
    using keep by (simp_all add: sint_sub1 sint_sub2)
  define k where "k = nat (sint keep - 1)"
  have k: "k < length commits" "nat (sint keep) = Suc k" "sint keep - 1 = int k"
    using keep by (simp_all add: k_def)
  define root where "root = commits ! k"
  have tk: "take (Suc k) commits = take k commits @ [root]"
    using k by (simp add: take_Suc_conv_app_nth root_def)
  from collab have trees: "\<forall>c \<in> set (take (Suc k) commits). TreeHash c \<in> Trees repo"
    and enc: "\<forall>c. encode_err env c = None" and st: "\<forall>c. store_err env c = None"
    and ref: "\<forall>h. setref_err env refName h = None"
    and push: "\<forall>r. push_err env r (RefSpec refName) True = None"
    by (simp_all add: collaborators_succeed_def k)
  define newRoot where "newRoot = \<lparr>Hash = 0, Author = Author root,
     Committer = rewriter env 0, Message = Message root, TreeHash = TreeHash root,
     ParentHashes = []\<rparr>"
  define repo1 where
    "repo1 = repo\<lparr>Commits := newRoot\<lparr>Hash := hashf env newRoot\<rparr> # Commits repo\<rparr>"
  have root: "TreeHash root \<in> Trees repo" using trees by (simp add: tk)
  have trees1: "\<forall>c \<in> set (take k commits). TreeHash c \<in> Trees repo1"
    using trees by (simp add: tk repo1_def)
  have n: "k = nat (sint keep - 2 + 1)" "sint keep - 2 < int (length commits)"
    using keep by (simp_all add: k_def)
  note loop = trim_loop_ok [OF trees1 enc st n, of "hashf env newRoot" 1]
  show ?thesis
    using k(1) auth clone head branch log keep root enc st ref push loop
    by (simp add: TrimOldCommits_def Let_def idx k(3) root_def newRoot_def repo1_def
          Tree_def Encode_def SetEncodedObject_def SetReference_def Push_def)
qed

lemma DeleteCommit_ok:
  assumes auth: "NewSSHAuth env sshKeyPEM = Inr auth"
    and clone: "CloneToMemory env repoURL auth = Inr repo"
    and head: "Head repo = Inr (refName, headHash)"
    and branch: "IsBranch refName"
    and log: "git_Log env repo headHash = Inr (commits, iterErr)"
    and L: "1 < length commits"
    and present: "NewHash env commitHash \<in> Hash ` set commits"
    and collab: "collaborators_succeed env repo refName commits"
  shows "\<exists>repo'. DeleteCommit env repoURL sshKeyPEM commitHash = (Inr (), Some repo')"
proof -
  let ?th = "NewHash env commitHash"
  from delete_ForEach_snd_present [OF present, of "[]" "- 1"]
  obtain k where k: "k < length commits"
    and ti: "snd (delete_ForEach ?th commits [] (- 1)) = int k"
    by auto
  have fe: "delete_ForEach ?th commits [] (- 1) = (commits, int k)"
    using delete_ForEach_eq [of ?th commits "- 1"] ti by simp
  define olds where "olds = rev (take k commits @ drop (Suc k) commits)"
  have skip: "delete_skip commits (int k) (int (length commits) - 1) [] = olds"
    unfolding olds_def by (rule delete_skip_eq [OF k])
  from collab have trees: "\<forall>c \<in> set commits. TreeHash c \<in> Trees repo"
    and enc: "\<forall>c. encode_err env c = None" and st: "\<forall>c. store_err env c = None"
    and ref: "\<forall>h. setref_err env refName h = None"
    and push: "\<forall>r. push_err env r (RefSpec refName) True = None"
    by (simp_all add: collaborators_succeed_def)
  have "set olds \<subseteq> set commits"
    unfolding olds_def using set_take_subset [of k commits] set_drop_subset [of "Suc k" commits]
    by auto
  with trees have trees': "\<forall>c \<in> set olds. TreeHash c \<in> Trees repo" by blast
  note loop = delete_rebuild_ok [OF trees' enc st, of 0 0]
  show ?thesis
    using auth clone head branch log L fe skip ref push loop
    by (simp add: DeleteCommit_def Let_def SetReference_def Push_def)
qed

lemma ModifyCommit_ok:
  assumes auth: "NewSSHAuth env sshKeyPEM = Inr auth"
    and clone: "CloneToMemory env repoURL auth = Inr repo"
    and head: "Head repo = Inr (refName, headHash)"
    and branch: "IsBranch refName"
    and log: "git_Log env repo headHash = Inr (commits, iterErr)"
    and present: "NewHash env commitHash \<in> Hash ` set commits"
    and collab: "collaborators_succeed env repo refName commits"
  shows "\<exists>repo'. ModifyCommit env repoURL sshKeyPEM commitHash newCommitMsg
                    = (Inr (), Some repo')"
proof -
  let ?th = "NewHash env commitHash"
  have fe: "modify_ForEach ?th commits [] False = (commits, True)"
    using present by (simp add: modify_ForEach_eq)
  from collab have trees: "\<forall>c \<in> set (rev commits). TreeHash c \<in> Trees repo"
    and enc: "\<forall>c. encode_err env c = None" and st: "\<forall>c. store_err env c = None"
    and ref: "\<forall>h. setref_err env refName h = None"
    and push: "\<forall>r. push_err env r (RefSpec refName) True = None"
    by (simp_all add: collaborators_succeed_def)
  note loop = modify_rebuild_ok [OF trees enc st, of ?th newCommitMsg 0 0]
  show ?thesis
    using auth clone head branch log fe ref push loop
    by (simp add: ModifyCommit_def Let_def modify_reverse_eq SetReference_def Push_def)
qed

subsection \<open>What a rewrite that has succeeded leaves behind\<close>

lemma TrimOldCommits_chain_when_ok:
  assumes auth: "NewSSHAuth env sshKeyPEM = Inr auth"
    and clone: "CloneToMemory env repoURL auth = Inr repo"
    and head: "Head repo = Inr (refName, headHash)"
    and branch: "IsBranch refName"
    and log: "git_Log env repo headHash = Inr (commits, iterErr)"
    and keep: "1 \<le> sint keep" "sint keep \<le> int (length commits)"
    and ok: "TrimOldCommits env repoURL sshKeyPEM keep = (Inr (), Some repo')"
  shows "(sint keep = int (length commits) \<longrightarrow> repo' = repo) \<and>
         (sint keep < int (length commits) \<longrightarrow>
            (let new = synthesized repo repo' in
               length new = nat (sint keep)
               \<and> map Message (rev new) = map Message (take (nat (sint keep)) commits)
               \<and> map TreeHash (rev new) = map TreeHash (take (nat (sint keep)) commits)
               \<and> chained [] new \<and> ParentHashes (hd new) = []
               \<and> Refs repo' refName = Some (Hash (last new))))"
proof (intro conjI impI)
  assume "sint keep = int (length commits)"
  with ok auth clone head branch log show "repo' = repo"
    by (simp add: TrimOldCommits_def)
next
  assume lt: "sint keep < int (length commits)"
  define new where "new = rechain env Message [] 0 (rev (take (nat (sint keep)) commits))"
  from TrimOldCommits_success [OF auth clone head branch log keep(1) lt ok]
  have repo': "repo' = repo\<lparr>Commits := rev new @ Commits repo,
                          Refs := (Refs repo)(refName \<mapsto> Hash (last new)),
                          Pushes := Pushes repo @ [(RefSpec refName, True)]\<rparr>"
    by (simp add: new_def)
  then have syn: "synthesized repo repo' = new"
    by (intro synthesized_append) simp
  have len: "length new = nat (sint keep)"
    using lt by (simp add: new_def)
  with keep(1) have ne: "new \<noteq> []" by auto
  have "map Message (rev new) = map Message (take (nat (sint keep)) commits)"
    by (simp add: new_def rev_map [symmetric] map_Message_rechain)
  moreover have "map TreeHash (rev new) = map TreeHash (take (nat (sint keep)) commits)"
    by (simp add: new_def rev_map [symmetric] map_TreeHash_rechain)
  moreover have ch: "chained [] new" by (simp add: new_def chained_rechain)
  moreover have "ParentHashes (hd new) = []" by (rule chained_hd [OF ch ne])
  moreover have "Refs repo' refName = Some (Hash (last new))" by (simp add: repo')
  ultimately show "let new = synthesized repo repo' in
               length new = nat (sint keep)
               \<and> map Message (rev new) = map Message (take (nat (sint keep)) commits)
               \<and> map TreeHash (rev new) = map TreeHash (take (nat (sint keep)) commits)
               \<and> chained [] new \<and> ParentHashes (hd new) = []
               \<and> Refs repo' refName = Some (Hash (last new))"
    by (simp add: syn len)
qed

lemma DeleteCommit_chain_when_ok:
  assumes auth: "NewSSHAuth env sshKeyPEM = Inr auth"
    and clone: "CloneToMemory env repoURL auth = Inr repo"
    and head: "Head repo = Inr (refName, headHash)"
    and branch: "IsBranch refName"
    and log: "git_Log env repo headHash = Inr (commits, iterErr)"
    and L: "1 < length commits"
    and present: "NewHash env commitHash \<in> Hash ` set commits"
    and ok: "DeleteCommit env repoURL sshKeyPEM commitHash = (Inr (), Some repo')"
  shows "\<exists>k < length commits. Hash (commits ! k) = NewHash env commitHash \<and>
           (let new = synthesized repo repo';
                others = take k commits @ drop (Suc k) commits in
              length new = length commits - 1
              \<and> map Message (rev new) = map Message others
              \<and> map TreeHash (rev new) = map TreeHash others
              \<and> chained [] new
              \<and> (0 < k \<and> Suc k < length commits \<longrightarrow>
                    ParentHashes (rev new ! (k - 1)) = [Hash (rev new ! k)])
              \<and> Refs repo' refName = Some (Hash (last new)))"
proof -
  from DeleteCommit_success [OF auth clone head branch log ok]
  obtain k where k: "k < length commits" "Hash (commits ! k) = NewHash env commitHash"
    and repo': "repo' = repo\<lparr>Commits :=
                    rev (rechain env Message [] 0 (rev (take k commits @ drop (Suc k) commits)))
                    @ Commits repo,
                  Refs := (Refs repo)(refName \<mapsto> Hash (last
                    (rechain env Message [] 0 (rev (take k commits @ drop (Suc k) commits))))),
                  Pushes := Pushes repo @ [(RefSpec refName, True)]\<rparr>"
    by blast
  define others where "others = take k commits @ drop (Suc k) commits"
  define new where "new = rechain env Message [] 0 (rev others)"
  from repo' have syn: "synthesized repo repo' = new"
    by (intro synthesized_append) (simp add: new_def others_def)
  have len: "length new = length commits - 1"
    using k(1) by (simp add: new_def others_def)
  have msgs: "map Message (rev new) = map Message others"
    by (simp add: new_def rev_map [symmetric] map_Message_rechain)
  have trees: "map TreeHash (rev new) = map TreeHash others"
    by (simp add: new_def rev_map [symmetric] map_TreeHash_rechain)
  have ch: "chained [] new" by (simp add: new_def chained_rechain)
  have ref: "Refs repo' refName = Some (Hash (last new))"
    by (simp add: repo' new_def others_def)
  have reparent: "ParentHashes (rev new ! (k - 1)) = [Hash (rev new ! k)]"
    if "0 < k" "Suc k < length commits"
  proof -
    from that len have kl: "k < length new" by simp
    have a: "rev new ! (k - 1) = new ! Suc (length new - 1 - k)"
      using that kl by (simp add: rev_nth Suc_diff_Suc)
    have b: "rev new ! k = new ! (length new - 1 - k)"
      using kl by (simp add: rev_nth)
    have c: "Suc (length new - 1 - k) < length new" using kl that by simp
    show ?thesis unfolding a b by (rule chained_nth [OF ch c])
  qed
  show ?thesis
    using k len msgs trees ch ref reparent
    by (intro exI [of _ k]) (simp add: syn others_def Let_def)
qed

lemma ModifyCommit_chain_when_ok:
  assumes auth: "NewSSHAuth env sshKeyPEM = Inr auth"
    and clone: "CloneToMemory env repoURL auth = Inr repo"
    and head: "Head repo = Inr (refName, headHash)"
    and branch: "IsBranch refName"
    and log: "git_Log env repo headHash = Inr (commits, iterErr)"
    and present: "NewHash env commitHash \<in> Hash ` set commits"
    and ok: "ModifyCommit env repoURL sshKeyPEM commitHash newCommitMsg = (Inr (), Some repo')"
  shows "let new = synthesized repo repo' in
           length new = length commits
           \<and> map TreeHash (rev new) = map TreeHash commits
           \<and> map Message (rev new)
               = map (\<lambda>c. if Hash c = NewHash env commitHash then newCommitMsg else Message c)
                   commits
           \<and> chained [] new
           \<and> (\<forall>n \<in> set new. Hash n = hashf env (n\<lparr>Hash := 0\<rparr>))
           \<and> map Committer new = map (rewriter env) [0..<length commits]
           \<and> Refs repo' refName = Some (Hash (last new))
           \<and> ((\<forall>c \<in> set commits. Hash c = hashf env (c\<lparr>Hash := 0\<rparr>))
                \<and> inj_on (hashf env) ((\<lambda>c. c\<lparr>Hash := 0\<rparr>) ` (set commits \<union> set new))
                \<and> (\<forall>c \<in> set commits. \<forall>j < length commits. Committer c \<noteq> rewriter env j)
                \<longrightarrow> (\<forall>n \<in> set new. Hash n \<notin> Hash ` set commits))"
proof -
  let ?msg = "\<lambda>c. if Hash c = NewHash env commitHash then newCommitMsg else Message c"
  define new where "new = rechain env ?msg [] 0 (rev commits)"
  from ModifyCommit_success [OF auth clone head branch log ok]
  have repo': "repo' = repo\<lparr>Commits := rev new @ Commits repo,
                          Refs := (Refs repo)(refName \<mapsto> Hash (last new)),
                          Pushes := Pushes repo @ [(RefSpec refName, True)]\<rparr>"
    by (simp add: new_def)
  then have syn: "synthesized repo repo' = new"
    by (intro synthesized_append) simp
  have len: "length new = length commits" by (simp add: new_def)
  have trees: "map TreeHash (rev new) = map TreeHash commits"
    by (simp add: new_def rev_map [symmetric] map_TreeHash_rechain)
  have msgs: "map Message (rev new) = map ?msg commits"
    by (simp add: new_def rev_map [symmetric] map_Message_rechain)
  have ch: "chained [] new" by (simp add: new_def chained_rechain)
  have hashed: "\<forall>n \<in> set new. Hash n = hashf env (n\<lparr>Hash := 0\<rparr>)"
    unfolding new_def by (blast intro: hashed_rechain)
  have comm: "map Committer new = map (rewriter env) [0..<length commits]"
    using map_Committer_rechain [of env ?msg "[]" 0 "rev commits"] by (simp add: new_def)
  have ref: "Refs repo' refName = Some (Hash (last new))" by (simp add: repo')
  have fresh: "\<forall>n \<in> set new. Hash n \<notin> Hash ` set commits"
    if a: "\<forall>c \<in> set commits. Hash c = hashf env (c\<lparr>Hash := 0\<rparr>)"
      and i: "inj_on (hashf env) ((\<lambda>c. c\<lparr>Hash := 0\<rparr>) ` (set commits \<union> set new))"
      and c: "\<forall>c \<in> set commits. \<forall>j < length commits. Committer c \<noteq> rewriter env j"
  proof
    fix n assume "n \<in> set new"
    then have n: "n \<in> set (rechain env ?msg [] 0 (rev commits))" by (simp add: new_def)
    from c have c': "\<forall>c \<in> set commits. \<forall>j < length (rev commits).
                       Committer c \<noteq> rewriter env (0 + j)" by simp
    from rechain_fresh [OF a i [unfolded new_def] c' n]
    show "Hash n \<notin> Hash ` set commits" .
  qed
  show ?thesis
    unfolding syn Let_def using len trees msgs ch hashed comm ref fresh by blast
qed

subsection \<open>The example, evaluated\<close>

lemma ex3_pre:
  "NewSSHAuth ex3 ''key'' = Inr ex_auth"
  "CloneToMemory ex3 ''url'' ex_auth = Inr ex_repo"
  "Head ex_repo = Inr (''refs/heads/main'', 66818)"
  "IsBranch ''refs/heads/main''"
  "git_Log ex3 ex_repo 66818 = Inr ([ex_c2, ex_c1, ex_c0], None)"
  by (simp_all add: ex_defs lib_defs)

lemma ex1_pre:
  "NewSSHAuth ex1 ''key'' = Inr ex_auth"
  "CloneToMemory ex1 ''url'' ex_auth = Inr ex_solo"
  "Head ex_solo = Inr (''refs/heads/main'', 5101)"
  "IsBranch ''refs/heads/main''"
  "git_Log ex1 ex_solo 5101 = Inr ([ex_c0], None)"
  by (simp_all add: ex_defs lib_defs)

lemma ex3_encode_fails_pre:
  "NewSSHAuth ex3_encode_fails ''key'' = Inr ex_auth"
  "CloneToMemory ex3_encode_fails ''url'' ex_auth = Inr ex_repo"
  "Head ex_repo = Inr (''refs/heads/main'', 66818)"
  "IsBranch ''refs/heads/main''"
  "git_Log ex3_encode_fails ex_repo 66818 = Inr ([ex_c2, ex_c1, ex_c0], None)"
  by (simp_all add: ex_defs lib_defs)

lemma ex3_trim: "TrimOldCommits ex3 ''url'' ''key'' 2 = (Inr (), Some ex_trimmed)"
  by (simp add: TrimOldCommits_def ex_defs lib_defs out_defs trim_loop.simps)

lemma ex3_delete: "DeleteCommit ex3 ''url'' ''key'' ''c1'' = (Inr (), Some ex_deleted)"
  by (simp add: DeleteCommit_def ex_defs lib_defs out_defs delete_skip.simps)

lemma ex3_modify: "ModifyCommit ex3 ''url'' ''key'' ''c1'' ''fixed'' = (Inr (), Some ex_amended)"
  by (simp add: ModifyCommit_def ex_defs lib_defs out_defs modify_reverse.simps Let_def)

section \<open>The claims\<close>

text \<open>
  Claim C1, for \<open>1 \<le> keep \<le> L\<close>. On a chain of \<open>L\<close> records (newest first), with the
  collaborators doing their part, \<open>TrimOldCommits\<close> returns success. For \<open>keep = L\<close> the
  repository is left as it is, the chain already having exactly \<open>keep\<close> records. For
  \<open>keep < L\<close> exactly \<open>keep\<close> records are synthesized, their messages and tree hashes from
  the tip to the root are those of the \<open>keep\<close> newest records of the original chain, they are
  chained by their new hashes from a root without a parent, and the branch points at the last
  of them.
\<close>

theorem TrimOldCommits_keeps_newest:
  assumes auth: "NewSSHAuth env sshKeyPEM = Inr auth"
    and clone: "CloneToMemory env repoURL auth = Inr repo"
    and head: "Head repo = Inr (refName, headHash)"
    and branch: "IsBranch refName"
    and log: "git_Log env repo headHash = Inr (commits, iterErr)"
    and keep: "1 \<le> sint keep" "sint keep \<le> int (length commits)"
    and collab: "collaborators_succeed env repo refName (take (nat (sint keep)) commits)"
  shows "\<exists>repo'. TrimOldCommits env repoURL sshKeyPEM keep = (Inr (), Some repo') \<and>
           ((sint keep = int (length commits) \<longrightarrow> repo' = repo) \<and>
                    (sint keep < int (length commits) \<longrightarrow>
                       (let new = synthesized repo repo' in
                          length new = nat (sint keep)
                          \<and> map Message (rev new) = map Message (take (nat (sint keep)) commits)
                          \<and> map TreeHash (rev new) = map TreeHash (take (nat (sint keep)) commits)
                          \<and> chained [] new \<and> ParentHashes (hd new) = []
                          \<and> Refs repo' refName = Some (Hash (last new)))))"
proof (cases "sint keep = int (length commits)")
  case True
  with auth clone head branch log
  have "TrimOldCommits env repoURL sshKeyPEM keep = (Inr (), Some repo)"
    by (simp add: TrimOldCommits_def)
  with True show ?thesis by simp
next
  case False
  with keep have lt: "sint keep < int (length commits)" by simp
  from TrimOldCommits_ok [OF auth clone head branch log keep(1) lt collab]
  obtain repo' where ok: "TrimOldCommits env repoURL sshKeyPEM keep = (Inr (), Some repo')"
    by blast
  from TrimOldCommits_chain_when_ok [OF auth clone head branch log keep ok] ok
  show ?thesis by blast
qed

text \<open>The example with \<open>keep = 2\<close>.\<close>

theorem TrimOldCommits_keeps_newest_witness:
  "NewSSHAuth ex3 ''key'' = Inr ex_auth
   \<and> CloneToMemory ex3 ''url'' ex_auth = Inr ex_repo
   \<and> Head ex_repo = Inr (''refs/heads/main'', 66818)
   \<and> IsBranch ''refs/heads/main''
   \<and> git_Log ex3 ex_repo 66818 = Inr ([ex_c2, ex_c1, ex_c0], None)
   \<and> 1 \<le> sint (2 :: go_int) \<and> sint (2 :: go_int) \<le> int (length [ex_c2, ex_c1, ex_c0])
   \<and> collaborators_succeed ex3 ex_repo ''refs/heads/main'' (take (nat (sint (2 :: go_int))) [ex_c2, ex_c1, ex_c0])
   \<and> (\<exists>repo'. TrimOldCommits ex3 ''url'' ''key'' 2 = (Inr (), Some repo') \<and>
              ((sint (2 :: go_int) = int (length [ex_c2, ex_c1, ex_c0]) \<longrightarrow> repo' = ex_repo) \<and>
                       (sint (2 :: go_int) < int (length [ex_c2, ex_c1, ex_c0]) \<longrightarrow>
                          (let new = synthesized ex_repo repo' in
                             length new = nat (sint (2 :: go_int))
                             \<and> map Message (rev new) = map Message (take (nat (sint (2 :: go_int))) [ex_c2, ex_c1, ex_c0])
                             \<and> map TreeHash (rev new) = map TreeHash (take (nat (sint (2 :: go_int))) [ex_c2, ex_c1, ex_c0])
                             \<and> chained [] new \<and> ParentHashes (hd new) = []
                             \<and> Refs repo' ''refs/heads/main'' = Some (Hash (last new))))))
   \<and> TrimOldCommits ex3 ''url'' ''key'' 2 = (Inr (), Some ex_trimmed)
   \<and> sint (2 :: go_int) < int (length [ex_c2, ex_c1, ex_c0])"
proof -
  have k: "1 \<le> sint (2 :: go_int)" "sint (2 :: go_int) \<le> int (length [ex_c2, ex_c1, ex_c0])"
    "sint (2 :: go_int) < int (length [ex_c2, ex_c1, ex_c0])"
    by simp_all
  have collab: "collaborators_succeed ex3 ex_repo ''refs/heads/main''
                  (take (nat (sint (2 :: go_int))) [ex_c2, ex_c1, ex_c0])"
    by (simp add: collaborators_succeed_def ex_defs)
  from TrimOldCommits_keeps_newest [OF ex3_pre k(1,2) collab] ex3_pre k collab ex3_trim
  show ?thesis by blast
qed

text \<open>
  Claim C1 as stated admits \<open>keep = 0\<close>: there the call does not produce a chain, it indexes
  \<open>commits[-1]\<close>.
\<close>

theorem TrimOldCommits_keep_zero_counterexample:
  "sint (0 :: go_int) \<le> int (length [ex_c2, ex_c1, ex_c0])
   \<and> git_Log ex3 ex_repo 66818 = Inr ([ex_c2, ex_c1, ex_c0], None)
   \<and> TrimOldCommits ex3 ''url'' ''key'' 0
        = (Inl (Panic (IndexOutOfRange (- 1) 3)), Some ex_repo)"
  by (simp add: TrimOldCommits_def ex_defs lib_defs)

text \<open>
  Claim C2. On a chain of more than one record that contains the target hash, with the
  collaborators doing their part, \<open>DeleteCommit\<close> returns success and \<open>L - 1\<close> records are
  synthesized; from the tip to the root their messages and tree hashes are those of the
  original chain without the record at the target's index \<open>k\<close>, in the original order; they
  are chained by their new hashes, so that the record that followed the deleted one has the
  record that preceded it as its parent; and the branch points at the last of them.
\<close>

theorem DeleteCommit_removes_target:
  assumes auth: "NewSSHAuth env sshKeyPEM = Inr auth"
    and clone: "CloneToMemory env repoURL auth = Inr repo"
    and head: "Head repo = Inr (refName, headHash)"
    and branch: "IsBranch refName"
    and log: "git_Log env repo headHash = Inr (commits, iterErr)"
    and L: "1 < length commits"
    and present: "NewHash env commitHash \<in> Hash ` set commits"
    and collab: "collaborators_succeed env repo refName commits"
  shows "\<exists>repo'. DeleteCommit env repoURL sshKeyPEM commitHash = (Inr (), Some repo') \<and>
           (\<exists>k < length commits. Hash (commits ! k) = NewHash env commitHash \<and>
                      (let new = synthesized repo repo';
                           others = take k commits @ drop (Suc k) commits in
                         length new = length commits - 1
                         \<and> map Message (rev new) = map Message others
                         \<and> map TreeHash (rev new) = map TreeHash others
                         \<and> chained [] new
                         \<and> (0 < k \<and> Suc k < length commits \<longrightarrow>
                               ParentHashes (rev new ! (k - 1)) = [Hash (rev new ! k)])
                         \<and> Refs repo' refName = Some (Hash (last new))))"
proof -
  from DeleteCommit_ok [OF auth clone head branch log L present collab]
  obtain repo' where ok: "DeleteCommit env repoURL sshKeyPEM commitHash = (Inr (), Some repo')"
    by blast
  from DeleteCommit_chain_when_ok [OF auth clone head branch log L present ok] ok
  show ?thesis by blast
qed

text \<open>The example, deleting the middle commit \<open>bb\<close>.\<close>

theorem DeleteCommit_removes_target_witness:
  "NewSSHAuth ex3 ''key'' = Inr ex_auth
   \<and> CloneToMemory ex3 ''url'' ex_auth = Inr ex_repo
   \<and> Head ex_repo = Inr (''refs/heads/main'', 66818)
   \<and> IsBranch ''refs/heads/main''
   \<and> git_Log ex3 ex_repo 66818 = Inr ([ex_c2, ex_c1, ex_c0], None)
   \<and> 1 < length [ex_c2, ex_c1, ex_c0]
   \<and> NewHash ex3 ''c1'' \<in> Hash ` set [ex_c2, ex_c1, ex_c0]
   \<and> collaborators_succeed ex3 ex_repo ''refs/heads/main'' [ex_c2, ex_c1, ex_c0]
   \<and> (\<exists>repo'. DeleteCommit ex3 ''url'' ''key'' ''c1'' = (Inr (), Some repo') \<and>
              (\<exists>k < length [ex_c2, ex_c1, ex_c0]. Hash ([ex_c2, ex_c1, ex_c0] ! k) = NewHash ex3 ''c1'' \<and>
                         (let new = synthesized ex_repo repo';
                              others = take k [ex_c2, ex_c1, ex_c0] @ drop (Suc k) [ex_c2, ex_c1, ex_c0] in
                            length new = length [ex_c2, ex_c1, ex_c0] - 1
                            \<and> map Message (rev new) = map Message others
                            \<and> map TreeHash (rev new) = map TreeHash others
                            \<and> chained [] new
                            \<and> (0 < k \<and> Suc k < length [ex_c2, ex_c1, ex_c0] \<longrightarrow>
                                  ParentHashes (rev new ! (k - 1)) = [Hash (rev new ! k)])
                            \<and> Refs repo' ''refs/heads/main'' = Some (Hash (last new)))))
   \<and> DeleteCommit ex3 ''url'' ''key'' ''c1'' = (Inr (), Some ex_deleted)
   \<and> 0 < (1 :: nat) \<and> Suc 1 < length [ex_c2, ex_c1, ex_c0]
   \<and> Hash ([ex_c2, ex_c1, ex_c0] ! 1) = NewHash ex3 ''c1''"
proof -
  have L: "1 < length [ex_c2, ex_c1, ex_c0]" by simp
  have present: "NewHash ex3 ''c1'' \<in> Hash ` set [ex_c2, ex_c1, ex_c0]"
    by (simp add: ex_defs)
  have collab: "collaborators_succeed ex3 ex_repo ''refs/heads/main'' [ex_c2, ex_c1, ex_c0]"
    by (simp add: collaborators_succeed_def ex_defs)
  have mid: "0 < (1 :: nat)" "Suc 1 < length [ex_c2, ex_c1, ex_c0]"
    "Hash ([ex_c2, ex_c1, ex_c0] ! 1) = NewHash ex3 ''c1''"
    by (simp_all add: ex_defs)
  from DeleteCommit_removes_target [OF ex3_pre L present collab]
    ex3_pre L present collab ex3_delete mid
  show ?thesis by blast
qed

text \<open>
  Claim C3, amended. On a chain that contains the target hash, with the collaborators doing
  their part, \<open>ModifyCommit\<close> returns success and as many records are synthesized as the chain
  has; from the tip to the root their tree hashes are the original ones and their messages are
  the original ones except that the record with the target hash has the new message. Every
  record, those below the target included, is encoded again with the rewriting committer and
  the time of the rewrite, and carries the hash of that encoding; the records are chained by
  these hashes and the branch points at the last. If the originals carry the hashes of their
  own encodings, the hash function has no collision among the records involved and no original
  already has a rewriting committer signature, then no hash of the new chain, from the root to
  the tip, is a hash of the original chain.
\<close>

theorem ModifyCommit_rewrites_every_record:
  assumes auth: "NewSSHAuth env sshKeyPEM = Inr auth"
    and clone: "CloneToMemory env repoURL auth = Inr repo"
    and head: "Head repo = Inr (refName, headHash)"
    and branch: "IsBranch refName"
    and log: "git_Log env repo headHash = Inr (commits, iterErr)"
    and present: "NewHash env commitHash \<in> Hash ` set commits"
    and collab: "collaborators_succeed env repo refName commits"
  shows "\<exists>repo'. ModifyCommit env repoURL sshKeyPEM commitHash newCommitMsg
                    = (Inr (), Some repo') \<and>
           (let new = synthesized repo repo' in
                      length new = length commits
                      \<and> map TreeHash (rev new) = map TreeHash commits
                      \<and> map Message (rev new)
                          = map (\<lambda>c. if Hash c = NewHash env commitHash then newCommitMsg else Message c)
                              commits
                      \<and> chained [] new
                      \<and> (\<forall>n \<in> set new. Hash n = hashf env (n\<lparr>Hash := 0\<rparr>))
                      \<and> map Committer new = map (rewriter env) [0..<length commits]
                      \<and> Refs repo' refName = Some (Hash (last new))
                      \<and> ((\<forall>c \<in> set commits. Hash c = hashf env (c\<lparr>Hash := 0\<rparr>))
                           \<and> inj_on (hashf env) ((\<lambda>c. c\<lparr>Hash := 0\<rparr>) ` (set commits \<union> set new))
                           \<and> (\<forall>c \<in> set commits. \<forall>j < length commits. Committer c \<noteq> rewriter env j)
                           \<longrightarrow> (\<forall>n \<in> set new. Hash n \<notin> Hash ` set commits)))"
proof -
  from ModifyCommit_ok [OF auth clone head branch log present collab]
  obtain repo' where
    ok: "ModifyCommit env repoURL sshKeyPEM commitHash newCommitMsg = (Inr (), Some repo')"
    by blast
  from ModifyCommit_chain_when_ok [OF auth clone head branch log present ok] ok
  show ?thesis by blast
qed

text \<open>The example, giving \<open>bb\<close> the message \<open>fixed\<close>.\<close>

theorem ModifyCommit_rewrites_every_record_witness:
  "NewSSHAuth ex3 ''key'' = Inr ex_auth
   \<and> CloneToMemory ex3 ''url'' ex_auth = Inr ex_repo
   \<and> Head ex_repo = Inr (''refs/heads/main'', 66818)
   \<and> IsBranch ''refs/heads/main''
   \<and> git_Log ex3 ex_repo 66818 = Inr ([ex_c2, ex_c1, ex_c0], None)
   \<and> NewHash ex3 ''c1'' \<in> Hash ` set [ex_c2, ex_c1, ex_c0]
   \<and> collaborators_succeed ex3 ex_repo ''refs/heads/main'' [ex_c2, ex_c1, ex_c0]
   \<and> (\<exists>repo'. ModifyCommit ex3 ''url'' ''key'' ''c1'' ''fixed''
                       = (Inr (), Some repo') \<and>
              (let new = synthesized ex_repo repo' in
                         length new = length [ex_c2, ex_c1, ex_c0]
                         \<and> map TreeHash (rev new) = map TreeHash [ex_c2, ex_c1, ex_c0]
                         \<and> map Message (rev new)
                             = map (\<lambda>c. if Hash c = NewHash ex3 ''c1'' then ''fixed'' else Message c)
                                 [ex_c2, ex_c1, ex_c0]
                         \<and> chained [] new
                         \<and> (\<forall>n \<in> set new. Hash n = hashf ex3 (n\<lparr>Hash := 0\<rparr>))
                         \<and> map Committer new = map (rewriter ex3) [0..<length [ex_c2, ex_c1, ex_c0]]
                         \<and> Refs repo' ''refs/heads/main'' = Some (Hash (last new))
                         \<and> ((\<forall>c \<in> set [ex_c2, ex_c1, ex_c0]. Hash c = hashf ex3 (c\<lparr>Hash := 0\<rparr>))
                              \<and> inj_on (hashf ex3) ((\<lambda>c. c\<lparr>Hash := 0\<rparr>) ` (set [ex_c2, ex_c1, ex_c0] \<union> set new))
                              \<and> (\<forall>c \<in> set [ex_c2, ex_c1, ex_c0]. \<forall>j < length [ex_c2, ex_c1, ex_c0]. Committer c \<noteq> rewriter ex3 j)
                              \<longrightarrow> (\<forall>n \<in> set new. Hash n \<notin> Hash ` set [ex_c2, ex_c1, ex_c0]))))
   \<and> ModifyCommit ex3 ''url'' ''key'' ''c1'' ''fixed'' = (Inr (), Some ex_amended)
   \<and> list_all (\<lambda>c. Hash c = hashf ex3 (c\<lparr>Hash := 0\<rparr>)) [ex_c2, ex_c1, ex_c0]
   \<and> inj_on (hashf ex3) ((\<lambda>c. c\<lparr>Hash := 0\<rparr>) `
          (set [ex_c2, ex_c1, ex_c0] \<union> set (synthesized ex_repo ex_amended)))
   \<and> list_all (\<lambda>c. list_all (\<lambda>j. Committer c \<noteq> rewriter ex3 j)
                       [0..<length [ex_c2, ex_c1, ex_c0]]) [ex_c2, ex_c1, ex_c0]
   \<and> list_all (\<lambda>n. Hash n \<notin> Hash ` set [ex_c2, ex_c1, ex_c0])
         (synthesized ex_repo ex_amended)
   \<and> length (synthesized ex_repo ex_amended) = length [ex_c2, ex_c1, ex_c0]
   \<and> map TreeHash (rev (synthesized ex_repo ex_amended)) = map TreeHash [ex_c2, ex_c1, ex_c0]
   \<and> map Message (rev (synthesized ex_repo ex_amended))
        = map (\<lambda>c. if Hash c = NewHash ex3 ''c1'' then ''fixed'' else Message c) [ex_c2, ex_c1, ex_c0]"
proof -
  have present: "NewHash ex3 ''c1'' \<in> Hash ` set [ex_c2, ex_c1, ex_c0]"
    by (simp add: ex_defs)
  have collab: "collaborators_succeed ex3 ex_repo ''refs/heads/main'' [ex_c2, ex_c1, ex_c0]"
    by (simp add: collaborators_succeed_def ex_defs)
  have syn: "synthesized ex_repo ex_amended
               = [ex_new ''a'' 100 9 [] 9101, ex_new ''fixed'' 200 10 [9101] 37508,
                  ex_new ''ccc'' 300 11 [37508] 123827]"
    by (simp add: synthesized_def ex_defs out_defs)
  have addressed: "\<forall>c \<in> set [ex_c2, ex_c1, ex_c0]. Hash c = hashf ex3 (c\<lparr>Hash := 0\<rparr>)"
    by (simp add: ex_defs)
  have inj: "inj_on (hashf ex3) ((\<lambda>c. c\<lparr>Hash := 0\<rparr>) `
          (set [ex_c2, ex_c1, ex_c0] \<union> set (synthesized ex_repo ex_amended)))"
    unfolding syn by (simp add: ex_defs out_defs)
  have committer: "\<forall>c \<in> set [ex_c2, ex_c1, ex_c0]. \<forall>j < length [ex_c2, ex_c1, ex_c0].
          Committer c \<noteq> rewriter ex3 j"
    by (simp add: ex_defs rewriter_def)
  then have committer': "\<forall>c \<in> set [ex_c2, ex_c1, ex_c0].
          \<forall>j \<in> set [0..<length [ex_c2, ex_c1, ex_c0]]. Committer c \<noteq> rewriter ex3 j"
    by (metis atLeastLessThan_iff set_upt)
  note inst = ModifyCommit_rewrites_every_record [OF ex3_pre present collab]
  from inst obtain r where
    r: "ModifyCommit ex3 ''url'' ''key'' ''c1'' ''fixed'' = (Inr (), Some r)"
    and len: "length (synthesized ex_repo r) = length [ex_c2, ex_c1, ex_c0]"
    and trees: "map TreeHash (rev (synthesized ex_repo r)) = map TreeHash [ex_c2, ex_c1, ex_c0]"
    and msgs: "map Message (rev (synthesized ex_repo r))
        = map (\<lambda>c. if Hash c = NewHash ex3 ''c1'' then ''fixed'' else Message c) [ex_c2, ex_c1, ex_c0]"
    and fresh: "(\<forall>c \<in> set [ex_c2, ex_c1, ex_c0]. Hash c = hashf ex3 (c\<lparr>Hash := 0\<rparr>))
       \<and> inj_on (hashf ex3) ((\<lambda>c. c\<lparr>Hash := 0\<rparr>) ` (set [ex_c2, ex_c1, ex_c0] \<union> set (synthesized ex_repo r)))
       \<and> (\<forall>c \<in> set [ex_c2, ex_c1, ex_c0]. \<forall>j < length [ex_c2, ex_c1, ex_c0]. Committer c \<noteq> rewriter ex3 j)
       \<longrightarrow> (\<forall>n \<in> set (synthesized ex_repo r). Hash n \<notin> Hash ` set [ex_c2, ex_c1, ex_c0])"
    unfolding Let_def by blast
  from r ex3_modify have r_eq: "r = ex_amended" by simp
  from fresh [unfolded r_eq] addressed inj committer
  have fresh': "\<forall>n \<in> set (synthesized ex_repo ex_amended). Hash n \<notin> Hash ` set [ex_c2, ex_c1, ex_c0]"
    by blast
  from inst ex3_pre present collab ex3_modify addressed inj committer' fresh'
    len [unfolded r_eq] trees [unfolded r_eq] msgs [unfolded r_eq]
  show ?thesis unfolding list_all_iff by blast
qed

text \<open>
  Claim C3 as stated has the hashes below the target unchanged. In the example the target is
  the middle commit and the root below it gets a new hash.
\<close>

theorem ModifyCommit_root_hash_counterexample:
  "ModifyCommit ex3 ''url'' ''key'' ''c1'' ''fixed'' = (Inr (), Some ex_amended)
   \<and> NewHash ex3 ''c1'' = Hash ([ex_c2, ex_c1, ex_c0] ! 1)
   \<and> Message (hd (synthesized ex_repo ex_amended)) = Message ([ex_c2, ex_c1, ex_c0] ! 2)
   \<and> TreeHash (hd (synthesized ex_repo ex_amended)) = TreeHash ([ex_c2, ex_c1, ex_c0] ! 2)
   \<and> Hash (hd (synthesized ex_repo ex_amended)) = 9101
   \<and> Hash ([ex_c2, ex_c1, ex_c0] ! 2) = 5101"
proof -
  have syn: "synthesized ex_repo ex_amended
               = [ex_new ''a'' 100 9 [] 9101, ex_new ''fixed'' 200 10 [9101] 37508,
                  ex_new ''ccc'' 300 11 [37508] 123827]"
    by (simp add: synthesized_def ex_defs out_defs)
  show ?thesis
    unfolding syn using ex3_modify by (simp add: ex_defs out_defs)
qed

text \<open>
  Claim C4. After each of the three rewrites that succeeds (a truncation that rewrites, that is
  \<open>1 \<le> keep < L\<close>), the synthesized records satisfy \<open>rewritten\<close> against the surviving
  originals: the first has no parent; every later one has as its only parent the hash computed
  for the record synthesized just before it; each carries the hash of its own encoding; tree
  hash and author are the original's; the message is the original's, or the new message for
  the target of \<open>ModifyCommit\<close>; the committer is the rewriting identity. The branch points at
  the last synthesized record.
\<close>

theorem rewrite_relinks_chain:
  assumes auth: "NewSSHAuth env sshKeyPEM = Inr auth"
    and clone: "CloneToMemory env repoURL auth = Inr repo"
    and head: "Head repo = Inr (refName, headHash)"
    and branch: "IsBranch refName"
    and log: "git_Log env repo headHash = Inr (commits, iterErr)"
  shows "(1 \<le> sint keep \<and> sint keep < int (length commits)
            \<and> TrimOldCommits env repoURL sshKeyPEM keep = (Inr (), Some r1)
          \<longrightarrow> rewritten env Message (rev (take (nat (sint keep)) commits)) (synthesized repo r1)
              \<and> Refs r1 refName = Some (Hash (last (synthesized repo r1))))
       \<and> (DeleteCommit env repoURL sshKeyPEM commitHash = (Inr (), Some r2)
          \<longrightarrow> (\<exists>k < length commits. Hash (commits ! k) = NewHash env commitHash
                 \<and> rewritten env Message (rev (take k commits @ drop (Suc k) commits))
                      (synthesized repo r2))
              \<and> Refs r2 refName = Some (Hash (last (synthesized repo r2))))
       \<and> (ModifyCommit env repoURL sshKeyPEM commitHash newCommitMsg = (Inr (), Some r3)
          \<longrightarrow> rewritten env
                 (\<lambda>c. if Hash c = NewHash env commitHash then newCommitMsg else Message c)
                 (rev commits) (synthesized repo r3)
              \<and> Refs r3 refName = Some (Hash (last (synthesized repo r3))))"
proof (intro conjI impI; (elim conjE)?)
  assume keep: "1 \<le> sint keep" "sint keep < int (length commits)"
    and ok: "TrimOldCommits env repoURL sshKeyPEM keep = (Inr (), Some r1)"
  define new where "new = rechain env Message [] 0 (rev (take (nat (sint keep)) commits))"
  from TrimOldCommits_success [OF auth clone head branch log keep ok]
  have r1: "r1 = repo\<lparr>Commits := rev new @ Commits repo,
                      Refs := (Refs repo)(refName \<mapsto> Hash (last new)),
                      Pushes := Pushes repo @ [(RefSpec refName, True)]\<rparr>"
    by (simp add: new_def)
  then have syn: "synthesized repo r1 = new" by (intro synthesized_append) simp
  show "rewritten env Message (rev (take (nat (sint keep)) commits)) (synthesized repo r1)"
    unfolding syn new_def by (rule rewritten_rechain)
  show "Refs r1 refName = Some (Hash (last (synthesized repo r1)))"
    unfolding syn by (simp add: r1)
next
  assume ok: "DeleteCommit env repoURL sshKeyPEM commitHash = (Inr (), Some r2)"
  from DeleteCommit_success [OF auth clone head branch log ok]
  obtain k where k: "k < length commits" "Hash (commits ! k) = NewHash env commitHash"
    and r2: "r2 = repo\<lparr>Commits :=
                    rev (rechain env Message [] 0 (rev (take k commits @ drop (Suc k) commits)))
                    @ Commits repo,
                  Refs := (Refs repo)(refName \<mapsto> Hash (last
                    (rechain env Message [] 0 (rev (take k commits @ drop (Suc k) commits))))),
                  Pushes := Pushes repo @ [(RefSpec refName, True)]\<rparr>"
    by blast
  define new where "new = rechain env Message [] 0 (rev (take k commits @ drop (Suc k) commits))"
  from r2 have syn: "synthesized repo r2 = new"
    by (intro synthesized_append) (simp add: new_def)
  have "rewritten env Message (rev (take k commits @ drop (Suc k) commits))
          (synthesized repo r2)"
    unfolding syn new_def by (rule rewritten_rechain)
  with k show "\<exists>k < length commits. Hash (commits ! k) = NewHash env commitHash
                 \<and> rewritten env Message (rev (take k commits @ drop (Suc k) commits))
                      (synthesized repo r2)"
    by blast
  show "Refs r2 refName = Some (Hash (last (synthesized repo r2)))"
    unfolding syn by (simp add: r2 new_def)
next
  assume ok: "ModifyCommit env repoURL sshKeyPEM commitHash newCommitMsg = (Inr (), Some r3)"
  let ?msg = "\<lambda>c. if Hash c = NewHash env commitHash then newCommitMsg else Message c"
  define new where "new = rechain env ?msg [] 0 (rev commits)"
  from ModifyCommit_success [OF auth clone head branch log ok]
  have r3: "r3 = repo\<lparr>Commits := rev new @ Commits repo,
                      Refs := (Refs repo)(refName \<mapsto> Hash (last new)),
                      Pushes := Pushes repo @ [(RefSpec refName, True)]\<rparr>"
    by (simp add: new_def)
  then have syn: "synthesized repo r3 = new" by (intro synthesized_append) simp
  show "rewritten env ?msg (rev commits) (synthesized repo r3)"
    unfolding syn new_def by (rule rewritten_rechain)
  show "Refs r3 refName = Some (Hash (last (synthesized repo r3)))"
    unfolding syn by (simp add: r3)
qed

text \<open>The example: \<open>keep = 2\<close>, and \<open>bb\<close> as the target of deletion and of the new message.\<close>

theorem rewrite_relinks_chain_witness:
  "NewSSHAuth ex3 ''key'' = Inr ex_auth
   \<and> CloneToMemory ex3 ''url'' ex_auth = Inr ex_repo
   \<and> Head ex_repo = Inr (''refs/heads/main'', 66818)
   \<and> IsBranch ''refs/heads/main''
   \<and> git_Log ex3 ex_repo 66818 = Inr ([ex_c2, ex_c1, ex_c0], None)
   \<and> 1 \<le> sint (2 :: go_int) \<and> sint (2 :: go_int) < int (length [ex_c2, ex_c1, ex_c0])
   \<and> TrimOldCommits ex3 ''url'' ''key'' 2 = (Inr (), Some ex_trimmed)
   \<and> DeleteCommit ex3 ''url'' ''key'' ''c1'' = (Inr (), Some ex_deleted)
   \<and> ModifyCommit ex3 ''url'' ''key'' ''c1'' ''fixed'' = (Inr (), Some ex_amended)
   \<and> rewritten ex3 Message (rev (take (nat (sint (2 :: go_int))) [ex_c2, ex_c1, ex_c0]))
        (synthesized ex_repo ex_trimmed)
   \<and> Refs ex_trimmed ''refs/heads/main'' = Some (Hash (last (synthesized ex_repo ex_trimmed)))
   \<and> (\<exists>k < length [ex_c2, ex_c1, ex_c0].
          Hash ([ex_c2, ex_c1, ex_c0] ! k) = NewHash ex3 ''c1''
          \<and> rewritten ex3 Message
               (rev (take k [ex_c2, ex_c1, ex_c0] @ drop (Suc k) [ex_c2, ex_c1, ex_c0]))
               (synthesized ex_repo ex_deleted))
   \<and> Refs ex_deleted ''refs/heads/main'' = Some (Hash (last (synthesized ex_repo ex_deleted)))
   \<and> rewritten ex3 (\<lambda>c. if Hash c = NewHash ex3 ''c1'' then ''fixed'' else Message c)
        (rev [ex_c2, ex_c1, ex_c0]) (synthesized ex_repo ex_amended)
   \<and> Refs ex_amended ''refs/heads/main'' = Some (Hash (last (synthesized ex_repo ex_amended)))"
proof -
  have k: "1 \<le> sint (2 :: go_int)" "sint (2 :: go_int) < int (length [ex_c2, ex_c1, ex_c0])"
    by simp_all
  from rewrite_relinks_chain [OF ex3_pre, where keep = 2 and ?r1.0 = ex_trimmed
      and commitHash = "''c1''"
      and ?r2.0 = ex_deleted and newCommitMsg = "''fixed''" and ?r3.0 = ex_amended]
    ex3_pre k ex3_trim ex3_delete ex3_modify
  show ?thesis by blast
qed

text \<open>
  Claim C5. In each of the three rewrites, if encoding or storing fails for one of the records
  to synthesize (the records the rewriting step yields for the surviving originals), the call
  returns an error, the references of the repository are the ones it was cloned with, and
  nothing has been pushed.
\<close>

theorem rewrite_failure_keeps_reference:
  assumes auth: "NewSSHAuth env sshKeyPEM = Inr auth"
    and clone: "CloneToMemory env repoURL auth = Inr repo"
    and head: "Head repo = Inr (refName, headHash)"
    and branch: "IsBranch refName"
    and log: "git_Log env repo headHash = Inr (commits, iterErr)"
  shows "(1 \<le> sint keep \<and> sint keep < int (length commits)
            \<and> write_fails env (rechain env Message [] 0 (rev (take (nat (sint keep)) commits)))
          \<longrightarrow> (\<exists>e repo'. TrimOldCommits env repoURL sshKeyPEM keep = (Inl e, Some repo')
                 \<and> Refs repo' = Refs repo \<and> Pushes repo' = Pushes repo))
       \<and> (1 < length commits \<and> k < length commits
            \<and> Hash (commits ! k) = NewHash env commitHash
            \<and> (\<forall>j. k < j \<and> j < length commits \<longrightarrow> Hash (commits ! j) \<noteq> NewHash env commitHash)
            \<and> write_fails env
                 (rechain env Message [] 0 (rev (take k commits @ drop (Suc k) commits)))
          \<longrightarrow> (\<exists>e repo'. DeleteCommit env repoURL sshKeyPEM commitHash = (Inl e, Some repo')
                 \<and> Refs repo' = Refs repo \<and> Pushes repo' = Pushes repo))
       \<and> (NewHash env commitHash \<in> Hash ` set commits
            \<and> write_fails env
                 (rechain env (\<lambda>c. if Hash c = NewHash env commitHash then newCommitMsg
                                    else Message c) [] 0 (rev commits))
          \<longrightarrow> (\<exists>e repo'. ModifyCommit env repoURL sshKeyPEM commitHash newCommitMsg
                             = (Inl e, Some repo')
                 \<and> Refs repo' = Refs repo \<and> Pushes repo' = Pushes repo))"
proof (intro conjI impI; (elim conjE)?)
  assume "1 \<le> sint keep" "sint keep < int (length commits)"
    "write_fails env (rechain env Message [] 0 (rev (take (nat (sint keep)) commits)))"
  then show "\<exists>e repo'. TrimOldCommits env repoURL sshKeyPEM keep = (Inl e, Some repo')
                 \<and> Refs repo' = Refs repo \<and> Pushes repo' = Pushes repo"
    by (rule TrimOldCommits_write_fails [OF auth clone head branch log])
next
  assume "1 < length commits" "k < length commits"
    "Hash (commits ! k) = NewHash env commitHash"
    "\<forall>j. k < j \<and> j < length commits \<longrightarrow> Hash (commits ! j) \<noteq> NewHash env commitHash"
    "write_fails env (rechain env Message [] 0 (rev (take k commits @ drop (Suc k) commits)))"
  then show "\<exists>e repo'. DeleteCommit env repoURL sshKeyPEM commitHash = (Inl e, Some repo')
                 \<and> Refs repo' = Refs repo \<and> Pushes repo' = Pushes repo"
    using DeleteCommit_write_fails [OF auth clone head branch log] by blast
next
  assume "NewHash env commitHash \<in> Hash ` set commits"
    "write_fails env
       (rechain env (\<lambda>c. if Hash c = NewHash env commitHash then newCommitMsg
                          else Message c) [] 0 (rev commits))"
  then show "\<exists>e repo'. ModifyCommit env repoURL sshKeyPEM commitHash newCommitMsg
                             = (Inl e, Some repo')
                 \<and> Refs repo' = Refs repo \<and> Pushes repo' = Pushes repo"
    by (rule ModifyCommit_write_fails [OF auth clone head branch log])
qed

text \<open>The example with an encoder that fails on the message \<open>ccc\<close>, the tip of all three.\<close>

theorem rewrite_failure_keeps_reference_witness:
  "NewSSHAuth ex3_encode_fails ''key'' = Inr ex_auth
   \<and> CloneToMemory ex3_encode_fails ''url'' ex_auth = Inr ex_repo
   \<and> Head ex_repo = Inr (''refs/heads/main'', 66818)
   \<and> IsBranch ''refs/heads/main''
   \<and> git_Log ex3_encode_fails ex_repo 66818 = Inr ([ex_c2, ex_c1, ex_c0], None)
   \<and> 1 \<le> sint (2 :: go_int) \<and> sint (2 :: go_int) < int (length [ex_c2, ex_c1, ex_c0])
   \<and> write_fails ex3_encode_fails
        (rechain ex3_encode_fails Message [] 0 (rev (take (nat (sint (2 :: go_int))) [ex_c2, ex_c1, ex_c0])))
   \<and> (\<exists>e repo'. TrimOldCommits ex3_encode_fails ''url'' ''key'' 2 = (Inl e, Some repo')
          \<and> Refs repo' = Refs ex_repo \<and> Pushes repo' = Pushes ex_repo)
   \<and> 1 < length [ex_c2, ex_c1, ex_c0]
   \<and> Hash ([ex_c2, ex_c1, ex_c0] ! 1) = NewHash ex3_encode_fails ''c1''
   \<and> list_all (\<lambda>j. Hash ([ex_c2, ex_c1, ex_c0] ! j) \<noteq> NewHash ex3_encode_fails ''c1'') [Suc 1..<length [ex_c2, ex_c1, ex_c0]]
   \<and> write_fails ex3_encode_fails
        (rechain ex3_encode_fails Message [] 0 (rev (take 1 [ex_c2, ex_c1, ex_c0] @ drop (Suc 1) [ex_c2, ex_c1, ex_c0])))
   \<and> (\<exists>e repo'. DeleteCommit ex3_encode_fails ''url'' ''key'' ''c1'' = (Inl e, Some repo')
          \<and> Refs repo' = Refs ex_repo \<and> Pushes repo' = Pushes ex_repo)
   \<and> NewHash ex3_encode_fails ''c1'' \<in> Hash ` set [ex_c2, ex_c1, ex_c0]
   \<and> write_fails ex3_encode_fails
        (rechain ex3_encode_fails
           (\<lambda>c. if Hash c = NewHash ex3_encode_fails ''c1'' then ''fixed'' else Message c)
           [] 0 (rev [ex_c2, ex_c1, ex_c0]))
   \<and> (\<exists>e repo'. ModifyCommit ex3_encode_fails ''url'' ''key'' ''c1'' ''fixed''
                     = (Inl e, Some repo')
          \<and> Refs repo' = Refs ex_repo \<and> Pushes repo' = Pushes ex_repo)"
proof -
  have k: "1 \<le> sint (2 :: go_int)" "sint (2 :: go_int) < int (length [ex_c2, ex_c1, ex_c0])" "1 < length [ex_c2, ex_c1, ex_c0]"
    by simp_all
  have target: "Hash ([ex_c2, ex_c1, ex_c0] ! 1) = NewHash ex3_encode_fails ''c1''"
    "NewHash ex3_encode_fails ''c1'' \<in> Hash ` set [ex_c2, ex_c1, ex_c0]"
    by (simp_all add: ex_defs)
  have later: "\<forall>j. 1 < j \<and> j < length [ex_c2, ex_c1, ex_c0]
                 \<longrightarrow> Hash ([ex_c2, ex_c1, ex_c0] ! j) \<noteq> NewHash ex3_encode_fails ''c1''"
  proof (intro allI impI)
    fix j :: nat assume "1 < j \<and> j < length [ex_c2, ex_c1, ex_c0]"
    then have "j = 2" by simp
    then show "Hash ([ex_c2, ex_c1, ex_c0] ! j) \<noteq> NewHash ex3_encode_fails ''c1''"
      by (simp add: ex_defs)
  qed
  have later': "list_all (\<lambda>j. Hash ([ex_c2, ex_c1, ex_c0] ! j) \<noteq> NewHash ex3_encode_fails ''c1'')
                       [Suc 1..<length [ex_c2, ex_c1, ex_c0]]"
    by (simp add: ex_defs)
  have f1: "write_fails ex3_encode_fails
        (rechain ex3_encode_fails Message [] 0 (rev (take (nat (sint (2 :: go_int))) [ex_c2, ex_c1, ex_c0])))"
    by (simp add: write_fails_def ex_defs lib_defs Let_def)
  have f2: "write_fails ex3_encode_fails
        (rechain ex3_encode_fails Message [] 0 (rev (take 1 [ex_c2, ex_c1, ex_c0] @ drop (Suc 1) [ex_c2, ex_c1, ex_c0])))"
    by (simp add: write_fails_def ex_defs lib_defs Let_def)
  have f3: "write_fails ex3_encode_fails
        (rechain ex3_encode_fails
           (\<lambda>c. if Hash c = NewHash ex3_encode_fails ''c1'' then ''fixed'' else Message c)
           [] 0 (rev [ex_c2, ex_c1, ex_c0]))"
    by (simp add: write_fails_def ex_defs lib_defs Let_def)
  from rewrite_failure_keeps_reference [OF ex3_encode_fails_pre, where keep = 2 and k = 1
      and commitHash = "''c1''" and newCommitMsg = "''fixed''"]
    ex3_encode_fails_pre k target later later' f1 f2 f3
  show ?thesis by blast
qed

text \<open>
  Claim C6, amended. On a chain of exactly one record \<open>DeleteCommit\<close> fails and leaves the
  repository as it is: with \<open>CannotDeleteSoleCommit\<close> when the target hash is the hash of that
  record, with \<open>CommitNotFound\<close> when it is not.
\<close>

theorem DeleteCommit_sole_commit:
  assumes auth: "NewSSHAuth env sshKeyPEM = Inr auth"
    and clone: "CloneToMemory env repoURL auth = Inr repo"
    and head: "Head repo = Inr (refName, headHash)"
    and branch: "IsBranch refName"
    and log: "git_Log env repo headHash = Inr ([c], iterErr)"
  shows "DeleteCommit env repoURL sshKeyPEM commitHash
           = (Inl (if NewHash env commitHash = Hash c then CannotDeleteSoleCommit
                   else CommitNotFound), Some repo)"
  using assms by (simp add: DeleteCommit_def)

text \<open>A repository with the single commit \<open>a\<close>, asked to delete it.\<close>

theorem DeleteCommit_sole_commit_witness:
  "NewSSHAuth ex1 ''key'' = Inr ex_auth
   \<and> CloneToMemory ex1 ''url'' ex_auth = Inr ex_solo
   \<and> Head ex_solo = Inr (''refs/heads/main'', 5101)
   \<and> IsBranch ''refs/heads/main''
   \<and> git_Log ex1 ex_solo 5101 = Inr ([ex_c0], None)
   \<and> NewHash ex1 ''c0'' = Hash ex_c0
   \<and> DeleteCommit ex1 ''url'' ''key'' ''c0'' = (Inl CannotDeleteSoleCommit, Some ex_solo)"
proof -
  have target: "NewHash ex1 ''c0'' = Hash ex_c0" by (simp add: ex_defs)
  from DeleteCommit_sole_commit [OF ex1_pre, of "''c0''"] target ex1_pre
  show ?thesis by simp
qed

text \<open>
  Claim C6 as stated covers a target that does not match: the same repository, asked to
  delete a hash it does not hold, answers \<open>CommitNotFound\<close>.
\<close>

theorem DeleteCommit_sole_not_found_counterexample:
  "git_Log ex1 ex_solo 5101 = Inr ([ex_c0], None)
   \<and> length [ex_c0] = 1
   \<and> DeleteCommit ex1 ''url'' ''key'' ''c1'' = (Inl CommitNotFound, Some ex_solo)
   \<and> CommitNotFound \<noteq> CannotDeleteSoleCommit"
  by (simp add: DeleteCommit_def ex_defs lib_defs CommitNotFound_def CannotDeleteSoleCommit_def)

text \<open>
  Claim C7 does not hold of the three rewrites. When \<open>repo.Push\<close> answers
  \<open>git.NoErrAlreadyUpToDate\<close>, \<open>PushCommit\<close> returns nil, but \<open>TrimOldCommits\<close>,
  \<open>DeleteCommit\<close> and \<open>ModifyCommit\<close> return that answer wrapped as the error
  \<open>push: already up-to-date\<close>.
\<close>

theorem rewrite_push_already_up_to_date:
  "push_err ex3_up_to_date = (\<lambda>r s f. Some NoErrAlreadyUpToDate)
   \<and> fst (PushCommit ex3_up_to_date ''url'' ''key'' ''msg'') = Inr ()
   \<and> TrimOldCommits ex3_up_to_date ''url'' ''key'' 2
        = (Inl (Errorf ''push'' NoErrAlreadyUpToDate), Some ex_trimmed)
   \<and> DeleteCommit ex3_up_to_date ''url'' ''key'' ''c1''
        = (Inl (Errorf ''push'' NoErrAlreadyUpToDate), Some ex_deleted)
   \<and> ModifyCommit ex3_up_to_date ''url'' ''key'' ''c1'' ''fixed''
        = (Inl (Errorf ''push'' NoErrAlreadyUpToDate), Some ex_amended)"
proof -
  have "push_err ex3_up_to_date = (\<lambda>r s f. Some NoErrAlreadyUpToDate)"
    by (simp add: ex_defs)
  moreover have "fst (PushCommit ex3_up_to_date ''url'' ''key'' ''msg'') = Inr ()"
    by (simp add: PushCommit_def ex_defs lib_defs)
  moreover have "TrimOldCommits ex3_up_to_date ''url'' ''key'' 2
        = (Inl (Errorf ''push'' NoErrAlreadyUpToDate), Some ex_trimmed)"
    by (simp add: TrimOldCommits_def ex_defs lib_defs out_defs trim_loop.simps)
  moreover have "DeleteCommit ex3_up_to_date ''url'' ''key'' ''c1''
        = (Inl (Errorf ''push'' NoErrAlreadyUpToDate), Some ex_deleted)"
    by (simp add: DeleteCommit_def ex_defs lib_defs out_defs delete_skip.simps)
  moreover have "ModifyCommit ex3_up_to_date ''url'' ''key'' ''c1'' ''fixed''
        = (Inl (Errorf ''push'' NoErrAlreadyUpToDate), Some ex_amended)"
    by (simp add: ModifyCommit_def ex_defs lib_defs out_defs modify_reverse.simps Let_def)
  ultimately show ?thesis by blast
qed

text \<open>
  Claim C8 does not hold for a negative \<open>max\<close>. With \<open>max = 0\<close> \<open>FetchCommits\<close> returns the
  whole history and with \<open>max = 2\<close> the two newest commits, newest first; with \<open>max = -1\<close>
  the slice allocation \<open>make([]SimpleCommit, 0, max)\<close> panics before the history is read.
\<close>

theorem FetchCommits_negative_max:
  "sint (- 1 :: go_int) \<le> 0
   \<and> FetchCommits ex3 ''url'' ''key'' (- 1) = Inl (Panic MakesliceCapOutOfRange)
   \<and> map_sum id (map message) (FetchCommits ex3 ''url'' ''key'' 0)
        = Inr [''ccc'', ''bb'', ''a'']
   \<and> map_sum id (map message) (FetchCommits ex3 ''url'' ''key'' 2) = Inr [''ccc'', ''bb'']"
  by (simp add: FetchCommits_def ex_defs lib_defs)

text \<open>
  Claim C9. When the chain has no more than \<open>keep\<close> records, \<open>TrimOldCommits\<close> is a no-op: it
  returns success and the repository is the clone as it was, so no commit object was written,
  no reference was changed and nothing was pushed. With \<open>keep\<close> equal to the length of the
  chain this is the idempotence of truncation.
\<close>

theorem TrimOldCommits_noop:
  assumes auth: "NewSSHAuth env sshKeyPEM = Inr auth"
    and clone: "CloneToMemory env repoURL auth = Inr repo"
    and head: "Head repo = Inr (refName, headHash)"
    and branch: "IsBranch refName"
    and log: "git_Log env repo headHash = Inr (commits, iterErr)"
    and short: "int (length commits) \<le> sint keep"
  shows "TrimOldCommits env repoURL sshKeyPEM keep = (Inr (), Some repo)"
  using assms by (simp add: TrimOldCommits_def)

text \<open>The three commits of the example with \<open>keep = 3\<close>.\<close>

theorem TrimOldCommits_noop_witness:
  "NewSSHAuth ex3 ''key'' = Inr ex_auth
   \<and> CloneToMemory ex3 ''url'' ex_auth = Inr ex_repo
   \<and> Head ex_repo = Inr (''refs/heads/main'', 66818)
   \<and> IsBranch ''refs/heads/main''
   \<and> git_Log ex3 ex_repo 66818 = Inr ([ex_c2, ex_c1, ex_c0], None)
   \<and> int (length [ex_c2, ex_c1, ex_c0]) \<le> sint (3 :: go_int)
   \<and> TrimOldCommits ex3 ''url'' ''key'' 3 = (Inr (), Some ex_repo)"
proof -
  have short: "int (length [ex_c2, ex_c1, ex_c0]) \<le> sint (3 :: go_int)" by simp
  from TrimOldCommits_noop [OF ex3_pre short] ex3_pre short show ?thesis by simp
qed

text \<open>
  Claim C10, amended. For a chain of at least one record (and no longer than a Go slice can
  be) and \<open>keep \<le> 0\<close>, \<open>TrimOldCommits\<close> passes the guard \<open>len(commits) <= keep\<close> and panics
  on \<open>commits[keep-1]\<close>. The index is \<open>keep - 1\<close> in Go's wrapping arithmetic and is out of
  bounds: negative for every \<open>keep \<le> 0\<close> but the least \<open>int\<close>, where it wraps to the greatest
  \<open>int\<close>. The call panics on an index exactly when \<open>keep \<le> 0\<close>: the indexing is in bounds
  only for \<open>keep \<ge> 1\<close>.
\<close>

theorem TrimOldCommits_nonpositive_keep:
  assumes auth: "NewSSHAuth env sshKeyPEM = Inr auth"
    and clone: "CloneToMemory env repoURL auth = Inr repo"
    and head: "Head repo = Inr (refName, headHash)"
    and branch: "IsBranch refName"
    and log: "git_Log env repo headHash = Inr (commits, iterErr)"
    and L: "1 \<le> length commits" "int (length commits) < 2 ^ 63"
  shows "(sint keep \<le> 0 \<longrightarrow>
            TrimOldCommits env repoURL sshKeyPEM keep
              = (Inl (Panic (IndexOutOfRange (sint (keep - 1)) (length commits))), Some repo)
            \<and> sint (keep - 1) = (if sint keep = - (2 ^ 63) then 2 ^ 63 - 1 else sint keep - 1)
            \<and> (sint (keep - 1) < 0 \<or> int (length commits) \<le> sint (keep - 1)))
       \<and> ((\<exists>p x. TrimOldCommits env repoURL sshKeyPEM keep = (Inl (Panic p), x))
            \<longleftrightarrow> sint keep \<le> 0)"
proof -
  have idx: "sint (keep - 1) = (if sint keep = - (2 ^ 63) then 2 ^ 63 - 1 else sint keep - 1)"
  proof (cases "sint keep = - (2 ^ 63)")
    case True
    then show ?thesis by (simp add: sint_min_sub1)
  next
    case False
    with sint_ge [of keep] have "- (2 ^ 63) < sint keep" by simp
    with False show ?thesis by (simp add: sint_sub1)
  qed
  have oob: "sint (keep - 1) < 0 \<or> int (length commits) \<le> sint (keep - 1)" if "sint keep \<le> 0"
    using that L idx by (auto split: if_splits)
  have panic: "TrimOldCommits env repoURL sshKeyPEM keep
              = (Inl (Panic (IndexOutOfRange (sint (keep - 1)) (length commits))), Some repo)"
    if "sint keep \<le> 0"
    using that L oob [OF that] auth clone head branch log
    by (simp add: TrimOldCommits_def Let_def)
  have nopanic: "TrimOldCommits env repoURL sshKeyPEM keep \<noteq> (Inl (Panic p), x)"
    if pos: "1 \<le> sint keep" for p x
  proof (cases "int (length commits) \<le> sint keep")
    case True
    with auth clone head branch log show ?thesis
      by (simp add: TrimOldCommits_def)
  next
    case False
    then have lt: "sint keep < int (length commits)" by simp
    show ?thesis
    proof
      assume "TrimOldCommits env repoURL sshKeyPEM keep = (Inl (Panic p), x)"
      from TrimOldCommits_error_wrapped [OF auth clone head branch log pos lt this]
      show False by auto
    qed
  qed
  have "(\<exists>p x. TrimOldCommits env repoURL sshKeyPEM keep = (Inl (Panic p), x))
            \<longleftrightarrow> sint keep \<le> 0"
  proof
    assume "\<exists>p x. TrimOldCommits env repoURL sshKeyPEM keep = (Inl (Panic p), x)"
    then show "sint keep \<le> 0"
      using nopanic by (cases "1 \<le> sint keep") auto
  next
    assume "sint keep \<le> 0"
    from panic [OF this] show "\<exists>p x. TrimOldCommits env repoURL sshKeyPEM keep = (Inl (Panic p), x)"
      by blast
  qed
  with idx oob panic show ?thesis by blast
qed

text \<open>The example with \<open>keep = 0\<close>.\<close>

theorem TrimOldCommits_nonpositive_keep_witness:
  "NewSSHAuth ex3 ''key'' = Inr ex_auth
   \<and> CloneToMemory ex3 ''url'' ex_auth = Inr ex_repo
   \<and> Head ex_repo = Inr (''refs/heads/main'', 66818)
   \<and> IsBranch ''refs/heads/main''
   \<and> git_Log ex3 ex_repo 66818 = Inr ([ex_c2, ex_c1, ex_c0], None)
   \<and> 1 \<le> length [ex_c2, ex_c1, ex_c0] \<and> int (length [ex_c2, ex_c1, ex_c0]) < 2 ^ 63
   \<and> sint (0 :: go_int) \<le> 0
   \<and> TrimOldCommits ex3 ''url'' ''key'' 0
        = (Inl (Panic (IndexOutOfRange (sint (0 - 1 :: go_int)) (length [ex_c2, ex_c1, ex_c0]))), Some ex_repo)
   \<and> sint (0 - 1 :: go_int) = - 1
   \<and> ((\<exists>p x. TrimOldCommits ex3 ''url'' ''key'' 0 = (Inl (Panic p), x))
        \<longleftrightarrow> sint (0 :: go_int) \<le> 0)"
proof -
  have L: "1 \<le> length [ex_c2, ex_c1, ex_c0]" "int (length [ex_c2, ex_c1, ex_c0]) < 2 ^ 63"
    by simp_all
  have z: "sint (0 :: go_int) \<le> 0" "sint (0 - 1 :: go_int) = - 1" by simp_all
  from TrimOldCommits_nonpositive_keep [OF ex3_pre L, of 0] ex3_pre L z
  show ?thesis by blast
qed

text \<open>
  Claim C10 as stated calls the index negative for every \<open>keep \<le> 0\<close>. For the least \<open>int\<close>
  the index is the greatest \<open>int\<close>.
\<close>

theorem TrimOldCommits_min_int_counterexample:
  "sint (- 9223372036854775808 :: go_int) \<le> 0
   \<and> 1 \<le> length [ex_c2, ex_c1, ex_c0]
   \<and> TrimOldCommits ex3 ''url'' ''key'' (- 9223372036854775808)
        = (Inl (Panic (IndexOutOfRange 9223372036854775807 3)), Some ex_repo)
   \<and> \<not> (9223372036854775807 :: int) < 0"
  by (simp add: TrimOldCommits_def ex_defs lib_defs)

end
